theory Spec2Isabelle
  imports Complex_Main "HOL-Library.Sublist"
begin

section \<open>Python strings\<close>

text \<open>
  A Python \<open>str\<close> is modelled as a HOL \<open>string\<close>: a list of characters whose code
  points are below 256, so \<open>length\<close> is Python's \<open>len\<close> on such text. An exception
  is modelled by its message: a call that may raise returns \<open>string + 'a\<close>, with
  \<open>Inl msg\<close> for \<open>raise E(msg)\<close>.
\<close>

definition NL :: char where
  "NL = CHR 0x0A"

text \<open>\<open>str.isspace\<close> on one character, for the code points below 256.\<close>

definition is_space :: "char \<Rightarrow> bool" where
  "is_space c = ((of_char c :: nat) \<in> {9, 10, 11, 12, 13, 28, 29, 30, 31, 32, 133, 160})"

text \<open>\<open>s.strip()\<close>: leading and trailing whitespace removed.\<close>

definition strip :: "string \<Rightarrow> string" where
  "strip s = rev (dropWhile is_space (rev (dropWhile is_space s)))"

text \<open>\<open>s.split(d)\<close> on a one-character separator: never the empty list.\<close>

fun split_acc :: "char \<Rightarrow> string \<Rightarrow> string \<Rightarrow> string list" where
  "split_acc d cur [] = [rev cur]"
| "split_acc d cur (c # cs) =
     (if c = d then rev cur # split_acc d [] cs else split_acc d (c # cur) cs)"

definition split_char :: "char \<Rightarrow> string \<Rightarrow> string list" where
  "split_char d s = split_acc d [] s"

text \<open>\<open>sep.join(xs)\<close>.\<close>

fun join :: "string \<Rightarrow> string list \<Rightarrow> string" where
  "join sep [] = []"
| "join sep [x] = x"
| "join sep (x # y # ys) = x @ sep @ join sep (y # ys)"

section \<open>Line-level deduplication (parser.py, \<open>deduplicate_content\<close>)\<close>

text \<open>
  The fingerprint \<open>hashlib.md5(...).hexdigest()\<close> is a parameter \<open>md5\<close>. The loop
  keeps the list \<open>unique_lines\<close> and the set \<open>seen_content\<close>, as the source does.
\<close>

fun dedupe_loop ::
  "(string \<Rightarrow> string) \<Rightarrow> string list \<Rightarrow> string list \<Rightarrow> string set \<Rightarrow> string list \<times> string set"
where
  "dedupe_loop md5 [] unique_lines seen_content = (unique_lines, seen_content)"
| "dedupe_loop md5 (line # rest) unique_lines seen_content =
     (let line_hash = md5 (strip line) in
      if length (strip line) > 40 \<and> line_hash \<in> seen_content
      then dedupe_loop md5 rest unique_lines seen_content
      else dedupe_loop md5 rest (unique_lines @ [line])
             (if length (strip line) > 40 then insert line_hash seen_content
              else seen_content))"

definition deduplicate_content ::
  "(string \<Rightarrow> string) \<Rightarrow> string \<Rightarrow> string set \<Rightarrow> string \<times> string set"
where
  "deduplicate_content md5 markdown seen_content =
     (let lines = split_char NL markdown;
          (unique_lines, seen') = dedupe_loop md5 lines [] seen_content
      in (join [NL] unique_lines, seen'))"

text \<open>
  The specification's wording, for comparison: line \<open>i\<close> is dropped exactly when its
  trimmed text is longer than 40 characters and the fingerprint of that text is already
  known, from the set given to the call or from an earlier long line of the same input.
\<close>

definition substantive :: "string \<Rightarrow> bool" where
  "substantive line = (40 < length (strip line))"

definition dropped_spec ::
  "(string \<Rightarrow> string) \<Rightarrow> string set \<Rightarrow> string list \<Rightarrow> nat \<Rightarrow> bool"
where
  "dropped_spec md5 seen lines i =
     (substantive (lines ! i) \<and>
      (md5 (strip (lines ! i)) \<in> seen \<or>
       (\<exists>j \<in> {..<i}. substantive (lines ! j) \<and>
           md5 (strip (lines ! j)) = md5 (strip (lines ! i)))))"

definition dedupe_spec ::
  "(string \<Rightarrow> string) \<Rightarrow> string set \<Rightarrow> string list \<Rightarrow> string list"
where
  "dedupe_spec md5 seen lines =
     map (\<lambda>i. lines ! i) (filter (\<lambda>i. \<not> dropped_spec md5 seen lines i) [0..<length lines])"

definition seen_spec ::
  "(string \<Rightarrow> string) \<Rightarrow> string set \<Rightarrow> string list \<Rightarrow> string set"
where
  "seen_spec md5 seen lines =
     seen \<union> (\<lambda>l. md5 (strip l)) ` {l \<in> set lines. substantive l}"

section \<open>Library behaviour taken as parameters\<close>

text \<open>
  The repository calls libraries that are not part of it. Where a claim depends on what
  a library call does, the call is modelled below (\<open>urlparse\<close>, the queries on the
  parsed document); everything else is a field of this record and every theorem holds
  for all values of the fields:
  \<^item> \<open>md5_hex s\<close> is \<open>hashlib.md5(s.encode()).hexdigest()\<close>;
  \<^item> \<open>trafilatura_extract html\<close> is \<open>trafilatura.extract(html, output_format='html', ...)\<close>:
    an exception, \<open>None\<close> or a fragment;
  \<^item> \<open>readability html\<close> is \<open>Document(html)\<close> with its \<open>title()\<close> and \<open>summary()\<close>: an
    exception or the pair of both;
  \<^item> \<open>html_parser html\<close> is \<open>BeautifulSoup(html, 'html.parser')\<close>, the top-level nodes;
  \<^item> \<open>tag_str e\<close> is \<open>str(e)\<close> on an element;
  \<^item> \<open>html2text s\<close> is \<open>HTML2Text.handle\<close> with the options of \<open>convert_to_markdown\<close>;
  \<^item> \<open>urljoin base url\<close> is \<open>urllib.parse.urljoin\<close>, which may raise \<open>ValueError\<close>;
  \<^item> \<open>netloc_check netloc\<close> is the validation \<open>urlsplit\<close> runs on a non-empty netloc
    (brackets of an IPv6 host, NFKC normalisation): \<open>Some msg\<close> when it raises
    \<open>ValueError(msg)\<close>.
\<close>

datatype node = Tag string "(string \<times> string) list" "node list" | NavigableString string

record libs =
  md5_hex :: "string \<Rightarrow> string"
  trafilatura_extract :: "string \<Rightarrow> string + string option"
  readability :: "string \<Rightarrow> string + string \<times> string"
  html_parser :: "string \<Rightarrow> node list"
  tag_str :: "node \<Rightarrow> string"
  html2text :: "string \<Rightarrow> string"
  urljoin :: "string \<Rightarrow> string \<Rightarrow> string + string"
  netloc_check :: "string \<Rightarrow> string option"

section \<open>URL parsing (\<open>urllib.parse.urlparse\<close>, as far as the crawler reads its result)\<close>

definition is_ascii_alpha :: "char \<Rightarrow> bool" where
  "is_ascii_alpha c =
     (let n = (of_char c :: nat) in (65 \<le> n \<and> n \<le> 90) \<or> (97 \<le> n \<and> n \<le> 122))"

definition is_ascii_digit :: "char \<Rightarrow> bool" where
  "is_ascii_digit c = (let n = (of_char c :: nat) in 48 \<le> n \<and> n \<le> 57)"

definition scheme_char :: "char \<Rightarrow> bool" where
  "scheme_char c = (is_ascii_alpha c \<or> is_ascii_digit c \<or> c \<in> set ''+-.'')"

text \<open>\<open>str.lower\<close> on the code points below 256: A-Z and the Latin-1 capitals.\<close>

definition lower_char :: "char \<Rightarrow> char" where
  "lower_char c =
     (let n = (of_char c :: nat) in
      if (65 \<le> n \<and> n \<le> 90) \<or> (192 \<le> n \<and> n \<le> 222 \<and> n \<noteq> 215)
      then char_of (n + 32) else c)"

definition lower :: "string \<Rightarrow> string" where
  "lower s = map lower_char s"

text \<open>
  \<open>urlsplit\<close> first drops leading C0 control characters and spaces and removes every
  tab, carriage return and line feed.
\<close>

definition c0_or_space :: "char \<Rightarrow> bool" where
  "c0_or_space c = ((of_char c :: nat) \<le> 32)"

definition unsafe_byte :: "char \<Rightarrow> bool" where
  "unsafe_byte c = ((of_char c :: nat) \<in> {9, 13, 10})"

definition sanitize_url :: "string \<Rightarrow> string" where
  "sanitize_url url = filter (\<lambda>c. \<not> unsafe_byte c) (dropWhile c0_or_space url)"

text \<open>
  The scheme: the text before the first \<open>:\<close>, when that text is not empty, starts with
  an ASCII letter and consists of scheme characters; it is lowercased.
\<close>

definition split_scheme :: "string \<Rightarrow> string \<times> string" where
  "split_scheme url =
     (let pre = takeWhile (\<lambda>c. c \<noteq> CHR '':'') url in
      if CHR '':'' \<in> set url \<and> pre \<noteq> [] \<and> is_ascii_alpha (hd url) \<and> list_all scheme_char pre
      then (lower pre, drop (length pre + 1) url)
      else ([], url))"

definition netloc_delim :: "char \<Rightarrow> bool" where
  "netloc_delim c = (c \<in> set ''/?#'')"

text \<open>\<open>_splitnetloc(url, 2)\<close> when the rest starts with \<open>//\<close>.\<close>

definition split_netloc :: "string \<Rightarrow> string \<times> string" where
  "split_netloc url =
     (if take 2 url = ''//''
      then (takeWhile (\<lambda>c. \<not> netloc_delim c) (drop 2 url),
            dropWhile (\<lambda>c. \<not> netloc_delim c) (drop 2 url))
      else ([], url))"

text \<open>
  \<open>_splitparams\<close>: the parameters start at the first \<open>;\<close> of the last path segment.
\<close>

definition split_params :: "string \<Rightarrow> string" where
  "split_params url =
     rev (dropWhile (\<lambda>c. c \<noteq> CHR ''/'') (rev url)) @
     takeWhile (\<lambda>c. c \<noteq> CHR '';'') (rev (takeWhile (\<lambda>c. c \<noteq> CHR ''/'') (rev url)))"

definition uses_params :: "string list" where
  "uses_params = ['''', ''ftp'', ''hdl'', ''prospero'', ''http'', ''imap'', ''https'',
     ''shttp'', ''rtsp'', ''rtsps'', ''rtspu'', ''sip'', ''sips'', ''mms'', ''sftp'', ''tel'']"

record parsed_url =
  url_scheme :: string
  url_netloc :: string
  url_path :: string

definition urlparse :: "libs \<Rightarrow> string \<Rightarrow> string + parsed_url" where
  "urlparse L url =
     (let (sch, rest) = split_scheme (sanitize_url url);
          (nl, rest) = split_netloc rest;
          rest = takeWhile (\<lambda>c. c \<noteq> CHR ''#'') rest;
          rest = takeWhile (\<lambda>c. c \<noteq> CHR ''?'') rest;
          p = (if sch \<in> set uses_params \<and> CHR '';'' \<in> set rest then split_params rest
               else rest)
      in case (if nl = [] then None else netloc_check L nl) of
           Some msg \<Rightarrow> Inl msg
         | None \<Rightarrow> Inr \<lparr>url_scheme = sch, url_netloc = nl, url_path = p\<rparr>)"

section \<open>The crawler object and URL normalisation (crawler.py)\<close>

text \<open>\<open>s.replace(pat, '')\<close> for a non-empty \<open>pat\<close>: every occurrence, left to right,
  without overlap; \<open>k\<close> counts the characters of a match still to skip.\<close>

fun remove_all :: "string \<Rightarrow> nat \<Rightarrow> string \<Rightarrow> string" where
  "remove_all pat k [] = []"
| "remove_all pat (Suc k) (c # cs) = remove_all pat k cs"
| "remove_all pat 0 (c # cs) =
     (if pat \<noteq> [] \<and> prefix pat (c # cs) then remove_all pat (length pat - 1) cs
      else c # remove_all pat 0 cs)"

definition SKIP_EXTENSIONS :: "string list" where
  "SKIP_EXTENSIONS =
     [''.pdf'', ''.doc'', ''.docx'', ''.ppt'', ''.pptx'', ''.xls'', ''.xlsx'',
      ''.zip'', ''.rar'', ''.tar'', ''.gz'', ''.7z'',
      ''.jpg'', ''.jpeg'', ''.png'', ''.gif'', ''.bmp'', ''.svg'', ''.webp'',
      ''.mp3'', ''.mp4'', ''.avi'', ''.mov'', ''.wmv'', ''.flv'',
      ''.exe'', ''.bin'', ''.iso'', ''.dmg'', ''.apk'', ''.ipa'']"

text \<open>
  The fields \<open>__init__\<close> sets and never changes. \<open>robots_parser\<close> is \<open>None\<close> or the
  \<open>can_fetch("*", url)\<close> of the loaded parser.
\<close>

record crawler =
  start_url :: string
  allow_subdomains :: bool
  max_pages :: int
  delay :: real
  respect_robots :: bool
  scheme :: string
  netloc :: string
  domain :: string
  robots_parser :: "(string \<Rightarrow> bool) option"

text \<open>
  The steps of \<open>_normalize_url\<close>, in the order of the source. \<open>resolved_url\<close> is the
  URL after the relative-link branch; \<open>in_scope\<close> is the domain test (the source returns
  \<open>None\<close> when it fails); \<open>skipped_extension\<close> is the extension test; \<open>with_slash\<close>
  adds the trailing slash.
\<close>

definition resolved_url :: "libs \<Rightarrow> crawler \<Rightarrow> string \<Rightarrow> string \<Rightarrow> string + string" where
  "resolved_url L self url parent_url =
     (if \<not> prefix ''http://'' url \<and> \<not> prefix ''https://'' url
      then (if prefix ''/'' url
            then urljoin L (scheme self @ ''://'' @ netloc self) url
            else urljoin L parent_url url)
      else Inr url)"

definition in_scope :: "crawler \<Rightarrow> string \<Rightarrow> bool" where
  "in_scope self host =
     (let netloc = remove_all ''www.'' 0 host in
      if allow_subdomains self then suffix (domain self) netloc
      else \<not> (netloc \<noteq> domain self \<and> netloc \<noteq> ''www.'' @ domain self))"

definition skipped_extension :: "string \<Rightarrow> bool" where
  "skipped_extension p = (\<exists>ext \<in> set SKIP_EXTENSIONS. suffix ext (lower p))"

definition with_slash :: "string \<Rightarrow> string" where
  "with_slash clean_url = (if \<not> suffix ''/'' clean_url then clean_url @ ''/'' else clean_url)"

definition normalize_url :: "libs \<Rightarrow> crawler \<Rightarrow> string \<Rightarrow> string \<Rightarrow> string + string option" where
  "normalize_url L self url parent_url =
     (case resolved_url L self url parent_url of
        Inl e \<Rightarrow> Inl e
      | Inr url \<Rightarrow>
          (case urlparse L url of
             Inl e \<Rightarrow> Inl e
           | Inr parsed \<Rightarrow>
               Inr (if url_scheme parsed \<notin> {''http'', ''https''} then None
                    else if \<not> in_scope self (url_netloc parsed) then None
                    else if skipped_extension (url_path parsed) then None
                    else Some (with_slash (url_scheme parsed @ ''://'' @
                                           url_netloc parsed @ url_path parsed)))))"

section \<open>The parsed document (BeautifulSoup), as far as parser.py and crawler.py query it\<close>

text \<open>
  A document is the list of its top-level nodes; an element is \<open>Tag name attrs children\<close>
  with the attributes as the parser's dictionary, a text node is \<open>NavigableString\<close>.
  Comments and other special strings, which \<open>get_text\<close> skips, are left out. An element
  is always truthy in Python (\<open>Tag.__bool__\<close> returns \<open>True\<close>), so \<open>if not element\<close> and
  \<open>if body\<close> test for \<open>None\<close> only.
\<close>

datatype selector = TagSel string | IdSel string | ClassSel string | AttrSel string string

text \<open>\<open>s.split()\<close>: the whitespace-separated words of an attribute value.\<close>

fun words_acc :: "string \<Rightarrow> string \<Rightarrow> string list" where
  "words_acc cur [] = (if cur = [] then [] else [rev cur])"
| "words_acc cur (c # cs) =
     (if is_space c then (if cur = [] then words_acc [] cs else rev cur # words_acc [] cs)
      else words_acc (c # cur) cs)"

text \<open>
  CSS matching for the selectors the source uses: a tag name, \<open>#id\<close>, \<open>.class\<close> and
  \<open>[attr='value']\<close>. A text node matches nothing.
\<close>

fun matches :: "selector \<Rightarrow> node \<Rightarrow> bool" where
  "matches sel (NavigableString s) = False"
| "matches (TagSel name) (Tag n a cs) = (n = name)"
| "matches (IdSel i) (Tag n a cs) = (map_of a ''id'' = Some i)"
| "matches (ClassSel c) (Tag n a cs) =
     (case map_of a ''class'' of None \<Rightarrow> False | Some v \<Rightarrow> c \<in> set (words_acc [] v))"
| "matches (AttrSel k v) (Tag n a cs) = (map_of a k = Some v)"

text \<open>The selector as the source writes it, for the strategy name.\<close>

fun selector_text :: "selector \<Rightarrow> string" where
  "selector_text (TagSel name) = name"
| "selector_text (IdSel i) = ''#'' @ i"
| "selector_text (ClassSel c) = ''.'' @ c"
| "selector_text (AttrSel k v) = ''['' @ k @ ''='' @ [CHR 0x27] @ v @ [CHR 0x27] @ '']''"

text \<open>\<open>find_all\<close> / \<open>select\<close>: the matching descendants, in document order.\<close>

fun find_all :: "(node \<Rightarrow> bool) \<Rightarrow> node list \<Rightarrow> node list" where
  "find_all p [] = []"
| "find_all p (NavigableString s # ns) = find_all p ns"
| "find_all p (Tag n a cs # ns) =
     (if p (Tag n a cs) then [Tag n a cs] else []) @ find_all p cs @ find_all p ns"

text \<open>\<open>find\<close> / \<open>select_one\<close>: the first match, or \<open>None\<close>.\<close>

definition select_one :: "(node \<Rightarrow> bool) \<Rightarrow> node list \<Rightarrow> node option" where
  "select_one p ns = (case find_all p ns of [] \<Rightarrow> None | e # _ \<Rightarrow> Some e)"

text \<open>
  \<open>for e in x.find_all(...): e.decompose()\<close>: every matching element is removed, with
  its subtree.
\<close>

fun decompose_all :: "(node \<Rightarrow> bool) \<Rightarrow> node list \<Rightarrow> node list" where
  "decompose_all p [] = []"
| "decompose_all p (NavigableString s # ns) = NavigableString s # decompose_all p ns"
| "decompose_all p (Tag n a cs # ns) =
     (if p (Tag n a cs) then decompose_all p ns
      else Tag n a (decompose_all p cs) # decompose_all p ns)"

text \<open>
  The source changes the selected element in place, inside the document: \<open>update_first\<close>
  is the document after the first match of \<open>p\<close> was replaced by \<open>f\<close> of it.
\<close>

fun update_first :: "(node \<Rightarrow> bool) \<Rightarrow> (node \<Rightarrow> node) \<Rightarrow> node list \<Rightarrow> node list" where
  "update_first p f [] = []"
| "update_first p f (NavigableString s # ns) = NavigableString s # update_first p f ns"
| "update_first p f (Tag n a cs # ns) =
     (if p (Tag n a cs) then f (Tag n a cs) # ns
      else if find_all p cs \<noteq> [] then Tag n a (update_first p f cs) # ns
      else Tag n a cs # update_first p f ns)"

text \<open>The text nodes below a list of nodes, in document order.\<close>

fun all_strings :: "node list \<Rightarrow> string list" where
  "all_strings [] = []"
| "all_strings (NavigableString s # ns) = s # all_strings ns"
| "all_strings (Tag n a cs # ns) = all_strings cs @ all_strings ns"

text \<open>\<open>element.get_text(strip=True)\<close>: the stripped, non-empty strings, concatenated.\<close>

fun get_text_strip :: "node \<Rightarrow> string" where
  "get_text_strip (Tag n a cs) = concat (filter (\<lambda>s. s \<noteq> []) (map strip (all_strings cs)))"
| "get_text_strip (NavigableString s) = strip s"

section \<open>Content extraction (parser.py)\<close>

definition NOISE_TAGS :: "string list" where
  "NOISE_TAGS = [''script'', ''style'', ''nav'', ''footer'', ''aside'',
                 ''noscript'', ''form'', ''svg'', ''iframe'', ''header'']"

text \<open>The loop over \<open>NOISE_TAGS\<close>, on a list of nodes.\<close>

definition remove_noise :: "node list \<Rightarrow> node list" where
  "remove_noise ns = fold (\<lambda>tag ns. decompose_all (matches (TagSel tag)) ns) NOISE_TAGS ns"

definition clean_html :: "libs \<Rightarrow> string \<Rightarrow> node list" where
  "clean_html L html_content = remove_noise (html_parser L html_content)"

text \<open>Python's truth value of an \<open>Optional[str]\<close>.\<close>

fun truthy :: "string option \<Rightarrow> bool" where
  "truthy None = False"
| "truthy (Some s) = (s \<noteq> [])"

definition extract_with_readability :: "libs \<Rightarrow> string \<Rightarrow> string option" where
  "extract_with_readability L html_content =
     (case readability L html_content of
        Inl e \<Rightarrow> None
      | Inr (title, content) \<Rightarrow>
          if content = [] \<or> length content < 500 then None
          else Some (if title \<noteq> [] then ''<h1>'' @ title @ ''</h1>'' @ [NL] @ content
                     else content))"

definition extract_with_trafilatura :: "libs \<Rightarrow> string \<Rightarrow> string option" where
  "extract_with_trafilatura L html_content =
     (case trafilatura_extract L html_content of
        Inl e \<Rightarrow> None
      | Inr None \<Rightarrow> None
      | Inr (Some extracted_html) \<Rightarrow>
          if extracted_html = [] \<or> length extracted_html < 500 then None
          else Some extracted_html)"

text \<open>The noise loop inside the selected element: its descendants only.\<close>

fun strip_noise :: "node \<Rightarrow> node" where
  "strip_noise (Tag n a cs) = Tag n a (remove_noise cs)"
| "strip_noise (NavigableString s) = NavigableString s"

text \<open>
  \<open>extract_with_selector\<close> returns the fragment and, because it decomposes inside the
  document it was given, the document afterwards.
\<close>

definition extract_with_selector ::
  "libs \<Rightarrow> node list \<Rightarrow> selector \<Rightarrow> string option \<times> node list"
where
  "extract_with_selector L soup sel =
     (case select_one (matches sel) soup of
        None \<Rightarrow> (None, soup)
      | Some element \<Rightarrow>
          let element = strip_noise element;
              soup = update_first (matches sel) strip_noise soup
          in if length (get_text_strip element) < 200 then (None, soup)
             else (Some (tag_str L element), soup))"

text \<open>
  The cascade of \<open>parse_url_to_markdown\<close>. Its variables \<open>extracted_html\<close>,
  \<open>strategy_used\<close> and \<open>soup\<close> are the fields of a record; \<open>calls\<close> records, in order,
  which strategies were run (it is not a variable of the source). Each strategy is one
  \<open>if not extracted_html:\<close> block of the source.
\<close>

record cascade =
  extracted_html :: "string option"
  strategy_used :: string
  soup :: "node list"
  calls :: "string list"

definition try_trafilatura :: "libs \<Rightarrow> string \<Rightarrow> cascade \<Rightarrow> cascade" where
  "try_trafilatura L html_content c =
     (let r = extract_with_trafilatura L html_content;
          c = c\<lparr>extracted_html := r, calls := calls c @ [''trafilatura'']\<rparr>
      in if truthy r then c\<lparr>strategy_used := ''trafilatura''\<rparr> else c)"

definition try_readability :: "libs \<Rightarrow> string \<Rightarrow> cascade \<Rightarrow> cascade" where
  "try_readability L html_content c =
     (if \<not> truthy (extracted_html c) then
        (let r = extract_with_readability L html_content;
             c = c\<lparr>extracted_html := r, calls := calls c @ [''readability'']\<rparr>
         in if truthy r then c\<lparr>strategy_used := ''readability''\<rparr> else c)
      else c)"

definition try_selector :: "libs \<Rightarrow> selector \<Rightarrow> string \<Rightarrow> cascade \<Rightarrow> cascade" where
  "try_selector L sel name c =
     (let (r, soup') = extract_with_selector L (soup c) sel;
          c = c\<lparr>extracted_html := r, soup := soup', calls := calls c @ [name]\<rparr>
      in if truthy r then c\<lparr>strategy_used := name\<rparr> else c)"

definition try_main :: "libs \<Rightarrow> cascade \<Rightarrow> cascade" where
  "try_main L c =
     (if \<not> truthy (extracted_html c) then try_selector L (TagSel ''main'') ''main'' c else c)"

definition try_article :: "libs \<Rightarrow> cascade \<Rightarrow> cascade" where
  "try_article L c =
     (if \<not> truthy (extracted_html c) then try_selector L (TagSel ''article'') ''article'' c
      else c)"

definition CONTENT_SELECTORS :: "selector list" where
  "CONTENT_SELECTORS = [IdSel ''content'', ClassSel ''content'', AttrSel ''role'' ''main'',
                        ClassSel ''main-content'', IdSel ''main-content'']"

text \<open>The \<open>for content_selector in [...]\<close> loop, left by \<open>break\<close> at the first success.\<close>

fun content_loop :: "libs \<Rightarrow> selector list \<Rightarrow> cascade \<Rightarrow> cascade" where
  "content_loop L [] c = c"
| "content_loop L (sel # rest) c =
     (let c = try_selector L sel (''selector:'' @ selector_text sel) c
      in if truthy (extracted_html c) then c else content_loop L rest c)"

definition try_content :: "libs \<Rightarrow> cascade \<Rightarrow> cascade" where
  "try_content L c =
     (if \<not> truthy (extracted_html c) then content_loop L CONTENT_SELECTORS c else c)"

definition BODY_NOISE :: "selector list" where
  "BODY_NOISE = [ClassSel ''sidebar'', ClassSel ''comments'', ClassSel ''related'',
                 ClassSel ''recommended'', ClassSel ''ad'', ClassSel ''advertisement'']"

fun strip_body :: "node \<Rightarrow> node" where
  "strip_body (Tag n a cs) = Tag n a (decompose_all (\<lambda>e. \<exists>s \<in> set BODY_NOISE. matches s e) cs)"
| "strip_body (NavigableString s) = NavigableString s"

definition try_body :: "libs \<Rightarrow> cascade \<Rightarrow> cascade" where
  "try_body L c =
     (if \<not> truthy (extracted_html c) then
        (let c = c\<lparr>calls := calls c @ [''body-fallback'']\<rparr> in
         case select_one (matches (TagSel ''body'')) (soup c) of
           None \<Rightarrow> c
         | Some body \<Rightarrow>
             c\<lparr>extracted_html := Some (tag_str L (strip_body body)),
               strategy_used := ''body-fallback'',
               soup := update_first (matches (TagSel ''body'')) strip_body (soup c)\<rparr>)
      else c)"

definition run_cascade :: "libs \<Rightarrow> string \<Rightarrow> cascade" where
  "run_cascade L html_content =
     try_body L (try_content L (try_article L (try_main L
       (try_readability L html_content (try_trafilatura L html_content
          \<lparr>extracted_html = None, strategy_used = ''unknown'',
           soup = clean_html L html_content, calls = []\<rparr>)))))"

definition no_content_error :: "string \<Rightarrow> string" where
  "no_content_error url = ''Could not extract content from '' @ url @ '' using any strategy''"

text \<open>
  Lines 210 to 265 of parser.py: the fragment and the name of its strategy, or the
  \<open>ValueError\<close> raised when no strategy gave content.
\<close>

definition extract_content :: "libs \<Rightarrow> string \<Rightarrow> string \<Rightarrow> string + string \<times> string" where
  "extract_content L url html_content =
     (let c = run_cascade L html_content in
      case extracted_html c of
        None \<Rightarrow> Inl (no_content_error url)
      | Some h \<Rightarrow> if h = [] then Inl (no_content_error url) else Inr (h, strategy_used c))"













section \<open>The network, the clock and the file\<close>

text \<open>
  What the program reads from outside is a parameter:
  \<^item> \<open>http_get url\<close> is the request of \<open>fetch_url\<close> with \<open>raise_for_status\<close>: the message
    of the \<open>RequestException\<close>, or the text of the response;
  \<^item> \<open>http_get_links url\<close> is the crawler's own \<open>requests.get(url, timeout=15).text\<close>;
  \<^item> \<open>robots_txt robots_url\<close> is \<open>RobotFileParser(robots_url).read()\<close>: an exception, or
    the parser's \<open>can_fetch("*", url)\<close>;
  \<^item> \<open>strftime\<close> is \<open>time.strftime('%Y-%m-%d %H:%M:%S')\<close> at the start of the crawl.
  The file \<open>llms.md\<close> is a string, its content; \<open>open(..., 'w')\<close> replaces it and
  \<open>open(..., 'a')\<close> appends to it.
\<close>

record world =
  http_get :: "string \<Rightarrow> string + string"
  http_get_links :: "string \<Rightarrow> string + string"
  robots_txt :: "string \<Rightarrow> string + (string \<Rightarrow> bool)"
  strftime :: string

section \<open>Single-page pipeline (parser.py)\<close>

definition fetch_url :: "world \<Rightarrow> string \<Rightarrow> string + string" where
  "fetch_url W url =
     (case http_get W url of
        Inl e \<Rightarrow> Inl (''Failed to fetch URL '' @ url @ '': '' @ e)
      | Inr text \<Rightarrow> Inr text)"

definition convert_to_markdown :: "libs \<Rightarrow> string \<Rightarrow> string" where
  "convert_to_markdown L html_content = html2text L html_content"

text \<open>
  \<open>parse_url_to_markdown\<close> takes and returns the content of \<open>llms.md\<close>, which it
  rewrites before it returns a page. Every exception leaves it as
  \<open>ValueError("Failed to process URL: ...")\<close>.
\<close>

definition parse_url_to_markdown ::
  "libs \<Rightarrow> world \<Rightarrow> string \<Rightarrow> string \<Rightarrow> (string + string) \<times> string"
where
  "parse_url_to_markdown L W url llms_md =
     (case fetch_url W url of
        Inl e \<Rightarrow> (Inl (''Failed to process URL: '' @ e), llms_md)
      | Inr html_content \<Rightarrow>
          (case extract_content L url html_content of
             Inl e \<Rightarrow> (Inl (''Failed to process URL: '' @ e), llms_md)
           | Inr (fragment, strategy) \<Rightarrow>
               let markdown = convert_to_markdown L fragment;
                   markdown = fst (deduplicate_content (md5_hex L) markdown {});
                   markdown = ''# '' @ url @ [NL, NL] @ ''*Extracted using: '' @ strategy @
                              ''*'' @ [NL, NL] @ markdown
               in (Inr markdown, markdown)))"

section \<open>The crawler (crawler.py)\<close>

text \<open>\<open>str(n)\<close> for an integer.\<close>

fun str_nat :: "nat \<Rightarrow> string" where
  "str_nat n =
     (if n < 10 then [''0123456789'' ! n]
      else str_nat (n div 10) @ [''0123456789'' ! (n mod 10)])"

definition str_int :: "int \<Rightarrow> string" where
  "str_int i = (if i < 0 then ''-'' @ str_nat (nat (- i)) else str_nat (nat i))"

definition str_bool :: "bool \<Rightarrow> string" where
  "str_bool b = (if b then ''True'' else ''False'')"

text \<open>\<open>WebsiteCrawler.__init__\<close>, with \<open>_init_robots_parser\<close>.\<close>

definition init_robots_parser :: "world \<Rightarrow> string \<Rightarrow> string \<Rightarrow> (string \<Rightarrow> bool) option" where
  "init_robots_parser W sch host =
     (case robots_txt W (sch @ ''://'' @ host @ ''/robots.txt'') of
        Inl e \<Rightarrow> None
      | Inr allowed \<Rightarrow> Some allowed)"

definition init_crawler ::
  "libs \<Rightarrow> world \<Rightarrow> string \<Rightarrow> bool \<Rightarrow> int \<Rightarrow> real \<Rightarrow> bool \<Rightarrow> string + crawler"
where
  "init_crawler L W url subdomains pages secs robots =
     (case urlparse L url of
        Inl e \<Rightarrow> Inl e
      | Inr parsed \<Rightarrow>
          Inr \<lparr>start_url = url, allow_subdomains = subdomains,
               max_pages = pages, delay = secs, respect_robots = robots,
               scheme = url_scheme parsed, netloc = url_netloc parsed,
               domain = remove_all ''www.'' 0 (url_netloc parsed),
               robots_parser =
                 (if robots
                  then init_robots_parser W (url_scheme parsed) (url_netloc parsed)
                  else None)\<rparr>)"

definition can_fetch :: "crawler \<Rightarrow> string \<Rightarrow> bool" where
  "can_fetch self url = (case robots_parser self of None \<Rightarrow> True | Some allowed \<Rightarrow> allowed url)"

text \<open>\<open>a_tag['href']\<close> and the filter \<open>href=True\<close>.\<close>

fun attr :: "node \<Rightarrow> string \<Rightarrow> string option" where
  "attr (Tag n a cs) k = map_of a k"
| "attr (NavigableString s) k = None"

definition a_with_href :: "node \<Rightarrow> bool" where
  "a_with_href e = (matches (TagSel ''a'') e \<and> attr e ''href'' \<noteq> None)"

fun links_loop :: "libs \<Rightarrow> crawler \<Rightarrow> string \<Rightarrow> node list \<Rightarrow> string list \<Rightarrow> string + string list" where
  "links_loop L self url [] links = Inr links"
| "links_loop L self url (a_tag # rest) links =
     (case attr a_tag ''href'' of
        None \<Rightarrow> links_loop L self url rest links
      | Some v \<Rightarrow>
          let href = strip v in
          if href = [] \<or> prefix ''javascript:'' href \<or> href = ''#''
          then links_loop L self url rest links
          else (case normalize_url L self href url of
                  Inl e \<Rightarrow> Inl e
                | Inr None \<Rightarrow> links_loop L self url rest links
                | Inr (Some normalized_url) \<Rightarrow>
                    if normalized_url \<noteq> []
                    then links_loop L self url rest (links @ [normalized_url])
                    else links_loop L self url rest links))"

definition extract_links :: "libs \<Rightarrow> crawler \<Rightarrow> string \<Rightarrow> string \<Rightarrow> string + string list" where
  "extract_links L self url html_content =
     links_loop L self url (find_all a_with_href (html_parser L html_content)) []"

text \<open>
  The state of \<open>crawl\<close>: the fields of the object that change (\<open>visited_urls\<close>,
  \<open>content_hashes\<close>, \<open>failed_urls\<close>), the local variables \<open>queue\<close>, \<open>pages_crawled\<close> and
  \<open>all_markdown\<close>, and the file \<open>llms_md\<close>. \<open>failed_urls\<close> is a dictionary that is
  printed in insertion order: a list of pairs with distinct keys. Four fields record what
  happened and are no variables of the source: \<open>fetched\<close> (the URLs given to
  \<open>parse_url_to_markdown\<close>, in order), \<open>extracted\<close> (the Markdown of the pages it
  returned), \<open>appended\<close> (the URLs whose section was appended to the aggregate) and
  \<open>slept_after\<close> (the URLs after whose processing \<open>time.sleep\<close> was called).
\<close>

record crawl_state =
  queue :: "string list"
  visited_urls :: "string set"
  content_hashes :: "string set"
  failed_urls :: "(string \<times> string) list"
  pages_crawled :: int
  all_markdown :: string
  llms_md :: string
  fetched :: "string list"
  extracted :: "string list"
  appended :: "string list"
  slept_after :: "string list"

text \<open>\<open>d[k] = v\<close> on an insertion-ordered dictionary.\<close>

fun dict_set :: "(string \<times> string) list \<Rightarrow> string \<Rightarrow> string \<Rightarrow> (string \<times> string) list" where
  "dict_set [] k v = [(k, v)]"
| "dict_set ((k', v') # d) k v = (if k' = k then (k, v) # d else (k', v') # dict_set d k v)"

definition record_failure :: "string \<Rightarrow> string \<Rightarrow> crawl_state \<Rightarrow> crawl_state" where
  "record_failure url e s = s\<lparr>failed_urls := dict_set (failed_urls s) url e\<rparr>"

text \<open>
  \<open>time.sleep(self.delay)\<close>, which raises \<open>ValueError\<close> on a negative delay; the outer
  \<open>except\<close> records it.
\<close>

definition sleep_after :: "crawler \<Rightarrow> string \<Rightarrow> crawl_state \<Rightarrow> crawl_state" where
  "sleep_after self url s =
     (let s = s\<lparr>slept_after := slept_after s @ [url]\<rparr> in
      if delay self < 0 then record_failure url ''sleep length must be non-negative'' s else s)"

definition page_section :: "string \<Rightarrow> string \<Rightarrow> string" where
  "page_section relative_path page_markdown =
     [NL, NL] @ ''## Page: '' @ relative_path @ [NL, NL] @ page_markdown @
     [NL, NL] @ ''---'' @ [NL, NL]"

text \<open>\<open>_is_duplicate_content\<close>: the answer, and the state with the hash added on first sight.\<close>

definition is_duplicate_content :: "libs \<Rightarrow> string \<Rightarrow> crawl_state \<Rightarrow> bool \<times> crawl_state" where
  "is_duplicate_content L content s =
     (let content_hash = md5_hex L content in
      if content_hash \<in> content_hashes s then (True, s)
      else (False, s\<lparr>content_hashes := insert content_hash (content_hashes s)\<rparr>))"

text \<open>
  The body of the loop after the robots check: the inner \<open>try\<close> (an exception in it is
  recorded and the loop goes on to \<open>time.sleep\<close>; the \<open>continue\<close> of a duplicate page
  skips the sleep).
\<close>

definition process_page :: "libs \<Rightarrow> world \<Rightarrow> crawler \<Rightarrow> string \<Rightarrow> crawl_state \<Rightarrow> crawl_state" where
  "process_page L W self url s =
     (case parse_url_to_markdown L W url (llms_md s) of
        (Inl e, file) \<Rightarrow>
          sleep_after self url
            (record_failure url e (s\<lparr>llms_md := file, fetched := fetched s @ [url]\<rparr>))
      | (Inr page_markdown, file) \<Rightarrow>
          let s = s\<lparr>llms_md := file, fetched := fetched s @ [url],
                    extracted := extracted s @ [page_markdown],
                    pages_crawled := pages_crawled s + 1\<rparr>;
              (duplicate, s) = is_duplicate_content L page_markdown s
          in if duplicate then s
             else
               (case urlparse L url of
                  Inl e \<Rightarrow> sleep_after self url (record_failure url e s)
                | Inr parsed \<Rightarrow>
                    let relative_path = (if url_path parsed \<noteq> [] then url_path parsed else ''/'');
                        s = s\<lparr>llms_md := llms_md s @ page_section relative_path page_markdown,
                              all_markdown :=
                                all_markdown s @ page_section relative_path page_markdown,
                              appended := appended s @ [url]\<rparr>
                    in (case http_get_links W url of
                          Inl e \<Rightarrow> sleep_after self url (record_failure url e s)
                        | Inr html_content \<Rightarrow>
                            (case extract_links L self url html_content of
                               Inl e \<Rightarrow> sleep_after self url (record_failure url e s)
                             | Inr links \<Rightarrow>
                                 sleep_after self url
                                   (s\<lparr>queue := queue s @
                                        filter (\<lambda>link. link \<notin> visited_urls s) links\<rparr>)))))"

text \<open>One iteration of the \<open>while\<close> loop (the loop runs it on a non-empty queue only).\<close>

definition crawl_step :: "libs \<Rightarrow> world \<Rightarrow> crawler \<Rightarrow> crawl_state \<Rightarrow> crawl_state" where
  "crawl_step L W self s =
     (case queue s of
        [] \<Rightarrow> s
      | url # rest \<Rightarrow>
          let s = s\<lparr>queue := rest\<rparr> in
          if url \<in> visited_urls s then s
          else
            let s = s\<lparr>visited_urls := insert url (visited_urls s)\<rparr> in
            if \<not> can_fetch self url then record_failure url ''Blocked by robots.txt'' s
            else process_page L W self url s)"

definition loop_guard :: "crawler \<Rightarrow> crawl_state \<Rightarrow> bool" where
  "loop_guard self s = (queue s \<noteq> [] \<and> pages_crawled s < max_pages self)"

definition file_header :: "world \<Rightarrow> crawler \<Rightarrow> string" where
  "file_header W self =
     ''# Website Crawl: '' @ start_url self @ [NL, NL] @
     ''*Generated on '' @ strftime W @ ''*'' @ [NL, NL] @
     ''*Crawl configuration: max_pages='' @ str_int (max_pages self) @
     '', allow_subdomains='' @ str_bool (allow_subdomains self) @ ''*'' @ [NL, NL]"

text \<open>The state when the loop is entered: the header is in the file only.\<close>

definition initial_state :: "world \<Rightarrow> crawler \<Rightarrow> crawl_state" where
  "initial_state W self =
     \<lparr>queue = [start_url self], visited_urls = {}, content_hashes = {}, failed_urls = [],
      pages_crawled = 0, all_markdown = [], llms_md = file_header W self,
      fetched = [], extracted = [], appended = [], slept_after = []\<rparr>"

definition summary :: "crawl_state \<Rightarrow> string" where
  "summary s =
     [NL, NL] @ ''## Crawl Summary'' @ [NL, NL] @
     ''* Total pages crawled: '' @ str_int (pages_crawled s) @ [NL] @
     ''* Total pages visited: '' @ str_nat (card (visited_urls s)) @ [NL] @
     ''* Failed pages: '' @ str_nat (length (failed_urls s)) @ [NL] @
     (if failed_urls s \<noteq> []
      then [NL] @ ''### Failed URLs'' @ [NL, NL] @
           concat (map (\<lambda>(url, error). ''* '' @ url @ '': '' @ error @ [NL]) (failed_urls s))
      else [])"

text \<open>The loop ends: an iteration counts a page or shortens the queue.\<close>

lemma record_failure_fields:
  "queue (record_failure url e s) = queue s"
  "visited_urls (record_failure url e s) = visited_urls s"
  "content_hashes (record_failure url e s) = content_hashes s"
  "pages_crawled (record_failure url e s) = pages_crawled s"
  "all_markdown (record_failure url e s) = all_markdown s"
  "llms_md (record_failure url e s) = llms_md s"
  "fetched (record_failure url e s) = fetched s"
  "extracted (record_failure url e s) = extracted s"
  "appended (record_failure url e s) = appended s"
  "slept_after (record_failure url e s) = slept_after s"
  by (simp_all add: record_failure_def)

lemma sleep_after_fields:
  "queue (sleep_after self url s) = queue s"
  "visited_urls (sleep_after self url s) = visited_urls s"
  "content_hashes (sleep_after self url s) = content_hashes s"
  "pages_crawled (sleep_after self url s) = pages_crawled s"
  "all_markdown (sleep_after self url s) = all_markdown s"
  "llms_md (sleep_after self url s) = llms_md s"
  "fetched (sleep_after self url s) = fetched s"
  "extracted (sleep_after self url s) = extracted s"
  "appended (sleep_after self url s) = appended s"
  "slept_after (sleep_after self url s) = slept_after s @ [url]"
  by (simp_all add: sleep_after_def Let_def record_failure_fields)

lemma process_page_progress:
  "pages_crawled (process_page L W self url s) = pages_crawled s + 1 \<or>
   (pages_crawled (process_page L W self url s) = pages_crawled s \<and>
    queue (process_page L W self url s) = queue s)"
  by (simp add: process_page_def is_duplicate_content_def Let_def sleep_after_fields
      record_failure_fields split: prod.splits sum.splits)

lemma crawl_step_progress:
  assumes "queue s \<noteq> []"
  shows "pages_crawled (crawl_step L W self s) = pages_crawled s + 1 \<or>
         (pages_crawled (crawl_step L W self s) = pages_crawled s \<and>
          length (queue (crawl_step L W self s)) < length (queue s))"
proof -
  obtain url rest where q: "queue s = url # rest" using assms by (cases "queue s") auto
  let ?s1 = "s\<lparr>queue := rest, visited_urls := insert url (visited_urls s)\<rparr>"
  show ?thesis
    using process_page_progress[of L W self url ?s1]
    by (auto simp: crawl_step_def q Let_def record_failure_fields)
qed

text \<open>\<open>while queue and pages_crawled < self.max_pages\<close>.\<close>

function crawl_loop :: "libs \<Rightarrow> world \<Rightarrow> crawler \<Rightarrow> crawl_state \<Rightarrow> crawl_state" where
  "crawl_loop L W self s =
     (if loop_guard self s then crawl_loop L W self (crawl_step L W self s) else s)"
  by pat_completeness auto
termination
proof (relation "measures [\<lambda>(L, W, self, s). nat (max_pages self - pages_crawled s),
                           \<lambda>(L, W, self, s). length (queue s)]")
  show "wf (measures [\<lambda>(L, W, self, s). nat (max_pages self - pages_crawled s),
                      \<lambda>(L, W, self, s). length (queue s)])" by simp
next
  fix L :: libs and W :: world and self :: crawler and s :: crawl_state
  assume g: "loop_guard self s"
  then have q: "queue s \<noteq> []" and p: "pages_crawled s < max_pages self"
    by (simp_all add: loop_guard_def)
  from crawl_step_progress[OF q, of L W self] p
  show "((L, W, self, crawl_step L W self s), (L, W, self, s))
          \<in> measures [\<lambda>(L, W, self, s). nat (max_pages self - pages_crawled s),
                      \<lambda>(L, W, self, s). length (queue s)]"
    by auto
qed

text \<open>
  \<open>crawl\<close>: the returned text and the state at the end, with the summary appended to the
  file and to the returned text.
\<close>

definition crawl :: "libs \<Rightarrow> world \<Rightarrow> crawler \<Rightarrow> string \<times> crawl_state" where
  "crawl L W self =
     (let s = crawl_loop L W self (initial_state W self);
          s = s\<lparr>llms_md := llms_md s @ summary s, all_markdown := all_markdown s @ summary s\<rparr>
      in (all_markdown s, s))"

definition crawl_and_parse_site ::
  "libs \<Rightarrow> world \<Rightarrow> string \<Rightarrow> bool \<Rightarrow> int \<Rightarrow> real \<Rightarrow> bool \<Rightarrow> string + string"
where
  "crawl_and_parse_site L W url subdomains pages secs robots =
     (case init_crawler L W url subdomains pages secs robots of
        Inl e \<Rightarrow> Inl e
      | Inr crawler \<Rightarrow> Inr (fst (crawl L W crawler)))"

text \<open>The states at the head of the loop during one run of \<open>crawl\<close>.\<close>

inductive reachable :: "libs \<Rightarrow> world \<Rightarrow> crawler \<Rightarrow> crawl_state \<Rightarrow> bool"
  for L :: libs and W :: world and self :: crawler
where
  start: "reachable L W self (initial_state W self)"
| iterate: "reachable L W self s \<Longrightarrow> loop_guard self s \<Longrightarrow>
            reachable L W self (crawl_step L W self s)"

text \<open>What holds at the head of the loop in every iteration (vocabulary of the proofs).\<close>

definition crawl_inv :: "libs \<Rightarrow> crawler \<Rightarrow> crawl_state \<Rightarrow> bool" where
  "crawl_inv L self s =
     (pages_crawled s \<le> max_pages self \<and>
      fst ` set (failed_urls s) \<subseteq> visited_urls s \<and>
      distinct (fetched s) \<and>
      set (fetched s) \<subseteq> visited_urls s \<and>
      md5_hex L ` set (extracted s) \<subseteq> content_hashes s)"

text \<open>
  Whether the page of \<open>url\<close> is one \<open>_is_duplicate_content\<close> answers \<open>True\<close> for, in
  state \<open>s\<close>.
\<close>

definition duplicate_page :: "libs \<Rightarrow> world \<Rightarrow> string \<Rightarrow> crawl_state \<Rightarrow> bool" where
  "duplicate_page L W url s =
     (case fst (parse_url_to_markdown L W url (llms_md s)) of
        Inl e \<Rightarrow> False
      | Inr page_markdown \<Rightarrow> md5_hex L page_markdown \<in> content_hashes s)"

section \<open>Example values\<close>

text \<open>
  Concrete libraries and sites, for the theorems that run the program on an input. The
  serialisation writes an element as its tags around its children, without escaping;
  the fingerprint is the text itself; \<open>html2text\<close> returns its input; \<open>urljoin\<close> is
  right where the examples use it, for an absolute path on an origin; neither extractor
  finds content. The parser knows the pages of the examples.
\<close>

fun serialize :: "node \<Rightarrow> string" where
  "serialize (NavigableString s) = s"
| "serialize (Tag n a cs) =
     ''<'' @ n @ concat (map (\<lambda>(k, v). '' '' @ k @ ''='' @ v) a) @ ''>'' @
     concat (map serialize cs) @ ''</'' @ n @ ''>''"

definition page_empty_body :: string where
  "page_empty_body = ''<html><body></body></html>''"

definition page_home :: string where
  "page_home = ''<html><body><a href=https://example.com>home</a></body></html>''"

definition page_a :: string where
  "page_a = ''<html><body><a href=http://a/>a</a></body></html>''"

definition page_b :: string where
  "page_b = ''<html><body>b</body></html>''"

definition page_fragment :: string where
  "page_fragment = ''<p>hi</p>''"

definition example_parser :: "string \<Rightarrow> node list" where
  "example_parser html =
     (if html = page_empty_body then [Tag ''html'' [] [Tag ''body'' [] []]]
      else if html = page_home then
        [Tag ''html'' [] [Tag ''body'' []
           [Tag ''a'' [(''href'', ''https://example.com'')] [NavigableString ''home'']]]]
      else if html = page_a then
        [Tag ''html'' [] [Tag ''body'' []
           [Tag ''a'' [(''href'', ''http://a/'')] [NavigableString ''a'']]]]
      else if html = page_b then [Tag ''html'' [] [Tag ''body'' [] [NavigableString ''b'']]]
      else if html = page_fragment then [Tag ''p'' [] [NavigableString ''hi'']]
      else [])"

definition example_libs :: libs where
  "example_libs =
     \<lparr>md5_hex = (\<lambda>s. s),
      trafilatura_extract = (\<lambda>html. Inr None),
      readability = (\<lambda>html. Inr ([], [])),
      html_parser = example_parser,
      tag_str = serialize,
      html2text = (\<lambda>s. s),
      urljoin = (\<lambda>base url. Inr (base @ url)),
      netloc_check = (\<lambda>host. None)\<rparr>"


text \<open>A crawler for \<open>https://example.com\<close>, as \<open>__init__\<close> builds it without robots.txt.\<close>

definition example_crawler :: crawler where
  "example_crawler =
     \<lparr>start_url = ''https://example.com'', allow_subdomains = False, max_pages = 100,
      delay = 0, respect_robots = False, scheme = ''https'', netloc = ''example.com'',
      domain = ''example.com'', robots_parser = None\<rparr>"

text \<open>A site that serves \<open>page_home\<close> at both spellings of its root.\<close>

definition example_site :: "string \<Rightarrow> string + string" where
  "example_site url =
     (if url = ''https://example.com'' \<or> url = ''https://example.com/'' then Inr page_home
      else Inl ''404 Client Error'')"

definition example_world :: world where
  "example_world =
     \<lparr>http_get = example_site, http_get_links = example_site,
      robots_txt = (\<lambda>url. Inl ''unreachable''), strftime = ''2025-01-01 00:00:00''\<rparr>"

text \<open>A site that cannot be reached.\<close>

definition offline_world :: world where
  "offline_world =
     \<lparr>http_get = (\<lambda>url. Inl ''connection refused''),
      http_get_links = (\<lambda>url. Inl ''connection refused''),
      robots_txt = (\<lambda>url. Inl ''unreachable''), strftime = ''2025-01-01 00:00:00''\<rparr>"

text \<open>
  A site on which two addresses give the same Markdown. The text that
  \<open>parse_url_to_markdown\<close> puts in front of a page holds the address, so the seed is an
  address whose own text ends with what follows the address in that heading, and the
  Markdown of the second page starts with it.
\<close>

definition heading_tail :: string where
  "heading_tail = [NL, NL] @ ''*Extracted using: body-fallback*'' @ [NL, NL]"

definition twin_seed :: string where
  "twin_seed = ''http://a/'' @ heading_tail"

definition twin_libs :: libs where
  "twin_libs =
     example_libs
       \<lparr>html2text := (\<lambda>fragment. if fragment = ''<body>b</body>'' then heading_tail @ ''hello''
                                 else ''hello'')\<rparr>"

definition twin_site :: "string \<Rightarrow> string + string" where
  "twin_site url =
     (if url = twin_seed then Inr page_a
      else if url = ''http://a/'' then Inr page_b
      else Inl ''404 Client Error'')"

definition twin_world :: world where
  "twin_world =
     \<lparr>http_get = twin_site, http_get_links = twin_site,
      robots_txt = (\<lambda>url. Inl ''unreachable''), strftime = ''2025-01-01 00:00:00''\<rparr>"

definition twin_crawler :: crawler where
  "twin_crawler =
     \<lparr>start_url = twin_seed, allow_subdomains = False, max_pages = 10,
      delay = 0, respect_robots = False, scheme = ''http'', netloc = ''a'',
      domain = ''a'', robots_parser = None\<rparr>"

text \<open>
  A crawl whose seed \<open>https://www./\<close> leaves an empty root domain, as \<open>__init__\<close>
  builds it, and libraries in which \<open>urljoin\<close> returns a link that has a scheme other
  than the base's as it is.
\<close>

definition www_crawler :: crawler where
  "www_crawler =
     \<lparr>start_url = ''https://www./'', allow_subdomains = False, max_pages = 100,
      delay = 0, respect_robots = False, scheme = ''https'', netloc = ''www.'',
      domain = [], robots_parser = None\<rparr>"

definition other_scheme_libs :: libs where
  "other_scheme_libs = example_libs\<lparr>urljoin := (\<lambda>base url. Inr url)\<rparr>"

section \<open>Line-level deduplication: the loop meets its specification\<close>

lemma dropped_spec_0:
  "dropped_spec h s (l # rest) 0 = (substantive l \<and> h (strip l) \<in> s)"
  by (simp add: dropped_spec_def)

lemma bex_lessThan_Suc_shift:
  "(\<exists>j \<in> {..<Suc i}. P ((l # rest) ! j)) = (P l \<or> (\<exists>j \<in> {..<i}. P (rest ! j)))"
proof
  assume "\<exists>j \<in> {..<Suc i}. P ((l # rest) ! j)"
  then obtain j where j: "j < Suc i" "P ((l # rest) ! j)" by auto
  show "P l \<or> (\<exists>j \<in> {..<i}. P (rest ! j))"
  proof (cases j)
    case 0 with j show ?thesis by simp
  next
    case (Suc k) with j show ?thesis by auto
  qed
next
  assume "P l \<or> (\<exists>j \<in> {..<i}. P (rest ! j))"
  then show "\<exists>j \<in> {..<Suc i}. P ((l # rest) ! j)"
  proof
    assume "P l" then show ?thesis by (intro bexI[of _ 0]) auto
  next
    assume "\<exists>j \<in> {..<i}. P (rest ! j)"
    then obtain j where "j < i" "P (rest ! j)" by auto
    then show ?thesis by (intro bexI[of _ "Suc j"]) auto
  qed
qed

lemma dropped_spec_Suc:
  "dropped_spec h s (l # rest) (Suc i) =
     dropped_spec h (if substantive l then insert (h (strip l)) s else s) rest i"
  unfolding dropped_spec_def
  using bex_lessThan_Suc_shift[of i "\<lambda>x. substantive x \<and> h (strip x) = h (strip (rest ! i))" l rest]
  by auto

lemma dedupe_spec_Nil: "dedupe_spec h s [] = []"
  by (simp add: dedupe_spec_def)

lemma dedupe_spec_Cons:
  "dedupe_spec h s (l # rest) =
     (if substantive l \<and> h (strip l) \<in> s then [] else [l]) @
     dedupe_spec h (if substantive l then insert (h (strip l)) s else s) rest"
proof -
  have idx: "[0..<length (l # rest)] = 0 # map Suc [0..<length rest]"
    by (simp add: upt_conv_Cons map_Suc_upt del: upt_Suc)
  show ?thesis
    unfolding dedupe_spec_def idx
    by (simp add: filter_map comp_def dropped_spec_0 dropped_spec_Suc del: upt_Suc)
qed

lemma dedupe_loop_acc:
  "dedupe_loop h ls u s = (u @ fst (dedupe_loop h ls [] s), snd (dedupe_loop h ls [] s))"
proof (induction ls arbitrary: u s)
  case Nil show ?case by simp
next
  case (Cons l ls)
  show ?case
    using Cons.IH[of u s] Cons.IH[of "u @ [l]"] Cons.IH[of "[l]"]
    by (simp add: Let_def)
qed

lemma dedupe_loop_fst: "fst (dedupe_loop h ls [] s) = dedupe_spec h s ls"
proof (induction ls arbitrary: s)
  case Nil show ?case by (simp add: dedupe_spec_Nil)
next
  case (Cons l ls)
  show ?case
    using Cons.IH dedupe_loop_acc[of h ls "[l]"]
    by (auto simp: Let_def dedupe_spec_Cons substantive_def insert_absorb)
qed

lemma seen_spec_Nil: "seen_spec h s [] = s"
  by (simp add: seen_spec_def)

lemma seen_spec_Cons:
  "seen_spec h s (l # rest) =
     seen_spec h (if substantive l then insert (h (strip l)) s else s) rest"
  by (auto simp: seen_spec_def)

lemma dedupe_loop_snd: "snd (dedupe_loop h ls u s) = seen_spec h s ls"
proof (induction ls arbitrary: u s)
  case Nil show ?case by (simp add: seen_spec_def)
next
  case (Cons l ls)
  show ?case
    using Cons.IH
    by (auto simp: Let_def seen_spec_Cons substantive_def insert_absorb)
qed

text \<open>
  C5. For every markdown text and every set of fingerprints, \<open>deduplicate_content\<close>
  keeps exactly the lines that \<open>dropped_spec\<close> does not drop, unchanged and in order:
  a line is dropped if and only if its trimmed text has more than 40 characters and the
  fingerprint of that text is in the given set or is the fingerprint of an earlier line
  of the same input with more than 40 trimmed characters. The returned set is the given
  one extended by the fingerprints of the long lines only, so a line of trimmed length
  40 or less is never dropped, never enters the set and never suppresses another line
  (the source computes its hash value but neither stores nor consults it).
\<close>

theorem dedupe_drops_iff:
  "deduplicate_content md5 markdown seen =
     (join [NL] (dedupe_spec md5 seen (split_char NL markdown)),
      seen_spec md5 seen (split_char NL markdown))"
  using dedupe_loop_fst[of md5 "split_char NL markdown" seen]
        dedupe_loop_snd[of md5 "split_char NL markdown" "[]" seen]
  by (simp add: deduplicate_content_def Let_def split_def)

text \<open>
  A line of 50 characters given twice is kept once; a line of 10 characters given twice
  is kept twice, and only the long line's fingerprint is recorded (the fingerprint is
  the identity here).
\<close>

theorem dedupe_drops_iff_witness:
  "deduplicate_content (\<lambda>s. s)
     (''aaaaaaaaaabbbbbbbbbbccccccccccddddddddddeeeeeeeeee'' @ [NL] @
      ''aaaaaaaaaabbbbbbbbbbccccccccccddddddddddeeeeeeeeee'' @ [NL] @
      ''short line'' @ [NL] @ ''short line'') {} =
     (''aaaaaaaaaabbbbbbbbbbccccccccccddddddddddeeeeeeeeee'' @ [NL] @
      ''short line'' @ [NL] @ ''short line'',
      {''aaaaaaaaaabbbbbbbbbbccccccccccddddddddddeeeeeeeeee''})"
  using dedupe_drops_iff[of "\<lambda>s. s"
     "''aaaaaaaaaabbbbbbbbbbccccccccccddddddddddeeeeeeeeee'' @ [NL] @
      ''aaaaaaaaaabbbbbbbbbbccccccccccddddddddddeeeeeeeeee'' @ [NL] @
      ''short line'' @ [NL] @ ''short line''" "{}"]
  by (simp add: split_char_def NL_def dedupe_spec_Cons dedupe_spec_Nil seen_spec_Cons
      seen_spec_Nil substantive_def strip_def is_space_def)

section \<open>URL parsing and normalisation: lemmas\<close>

lemma set_split_params: "set (split_params u) \<subseteq> set u"
proof
  fix x assume "x \<in> set (split_params u)"
  then consider "x \<in> set (dropWhile (\<lambda>c. c \<noteq> CHR ''/'') (rev u))"
    | "x \<in> set (takeWhile (\<lambda>c. c \<noteq> CHR '';'') (rev (takeWhile (\<lambda>c. c \<noteq> CHR ''/'') (rev u))))"
    unfolding split_params_def by auto
  then show "x \<in> set u"
  proof cases
    case 1
    then have "x \<in> set (rev u)" by (rule set_dropWhileD)
    then show ?thesis by simp
  next
    case 2
    then have "x \<in> set (rev (takeWhile (\<lambda>c. c \<noteq> CHR ''/'') (rev u)))"
      by (blast dest: set_takeWhileD)
    then have "x \<in> set (takeWhile (\<lambda>c. c \<noteq> CHR ''/'') (rev u))" by simp
    then have "x \<in> set (rev u)" by (blast dest: set_takeWhileD)
    then show ?thesis by simp
  qed
qed

lemma split_params_slash_end:
  assumes "u \<noteq> []" "last u = CHR ''/''"
  shows "split_params u = u"
proof -
  obtain v where v: "u = v @ [CHR ''/'']" using assms by (metis append_butlast_last_id)
  show ?thesis unfolding split_params_def v by simp
qed

lemma hd_split_params:
  assumes "u \<noteq> []" "hd u = CHR ''/''"
  shows "split_params u \<noteq> [] \<and> hd (split_params u) = CHR ''/''"
proof -
  obtain v where v: "u = CHR ''/'' # v" using assms by (cases u) auto
  have "rev (dropWhile (\<lambda>c. c \<noteq> CHR ''/'') (rev v @ [CHR ''/''])) = CHR ''/'' # rev (dropWhile (\<lambda>c. c \<noteq> CHR ''/'') (rev v))"
    by (simp add: dropWhile_append)
  then show ?thesis unfolding split_params_def v by simp
qed

lemma set_sanitize: "c \<in> set (sanitize_url u) \<Longrightarrow> \<not> unsafe_byte c"
  by (auto simp: sanitize_url_def)

lemma split_scheme_set: "split_scheme u = (s, r) \<Longrightarrow> set r \<subseteq> set u"
  by (auto simp: split_scheme_def Let_def split: if_splits dest: in_set_dropD)

lemma split_netloc_props:
  assumes "split_netloc u = (n, r)"
  shows "set n \<subseteq> set u" "set r \<subseteq> set u" "\<forall>c \<in> set n. \<not> netloc_delim c"
        "n \<noteq> [] \<longrightarrow> r = [] \<or> netloc_delim (hd r)"
proof -
  show "set n \<subseteq> set u" using assms
    by (auto simp: split_netloc_def split: if_splits dest!: set_takeWhileD in_set_dropD)
  show "set r \<subseteq> set u" using assms
    by (auto simp: split_netloc_def split: if_splits dest!: set_dropWhileD in_set_dropD)
  show "\<forall>c \<in> set n. \<not> netloc_delim c" using assms
    by (auto simp: split_netloc_def split: if_splits dest!: set_takeWhileD)
  show "n \<noteq> [] \<longrightarrow> r = [] \<or> netloc_delim (hd r)"
  proof (cases "take 2 u = ''//''")
    case True
    then have r: "r = dropWhile (\<lambda>c. \<not> netloc_delim c) (drop 2 u)"
      using assms by (simp add: split_netloc_def)
    show ?thesis unfolding r
      using hd_dropWhile[of "\<lambda>c. \<not> netloc_delim c" "drop 2 u"] by blast
  next
    case False
    then show ?thesis using assms by (simp add: split_netloc_def)
  qed
qed


lemma takeWhile_hd_cases:
  assumes "r = [] \<or> netloc_delim (hd r)"
  shows "takeWhile (\<lambda>c. c \<noteq> CHR ''?'') (takeWhile (\<lambda>c. c \<noteq> CHR ''#'') r) = [] \<or>
         hd (takeWhile (\<lambda>c. c \<noteq> CHR ''?'') (takeWhile (\<lambda>c. c \<noteq> CHR ''#'') r)) = CHR ''/''"
proof (cases r)
  case Nil then show ?thesis by simp
next
  case (Cons a as)
  with assms have "a = CHR ''/'' \<or> a = CHR ''?'' \<or> a = CHR ''#''"
    by (auto simp: netloc_delim_def)
  then show ?thesis using Cons by auto
qed

lemma urlparse_props:
  assumes "urlparse L u = Inr pr"
  shows "\<forall>c \<in> set (url_netloc pr). \<not> netloc_delim c \<and> \<not> unsafe_byte c"
    and "\<forall>c \<in> set (url_path pr). c \<noteq> CHR ''#'' \<and> c \<noteq> CHR ''?'' \<and> \<not> unsafe_byte c"
    and "url_netloc pr \<noteq> [] \<longrightarrow> url_path pr = [] \<or> hd (url_path pr) = CHR ''/''"
    and "url_netloc pr \<noteq> [] \<longrightarrow> netloc_check L (url_netloc pr) = None"
proof -
  obtain sch r1 where s1: "split_scheme (sanitize_url u) = (sch, r1)" by (cases "split_scheme (sanitize_url u)")
  obtain n r2 where s2: "split_netloc r1 = (n, r2)" by (cases "split_netloc r1")
  define r4 where "r4 = takeWhile (\<lambda>c. c \<noteq> CHR ''?'') (takeWhile (\<lambda>c. c \<noteq> CHR ''#'') r2)"
  define p where "p = (if sch \<in> set uses_params \<and> CHR '';'' \<in> set r4 then split_params r4 else r4)"
  have chk: "(if n = [] then None else netloc_check L n) = None"
    and pr: "pr = \<lparr>url_scheme = sch, url_netloc = n, url_path = p\<rparr>"
    using assms unfolding urlparse_def s1 s2 Let_def split_conv p_def r4_def
    by (auto split: option.splits)
  have safe1: "\<forall>c \<in> set r1. \<not> unsafe_byte c"
    using split_scheme_set[OF s1] set_sanitize by blast
  have n_sub: "set n \<subseteq> set r1" and r2_sub: "set r2 \<subseteq> set r1"
    and n_delim: "\<forall>c \<in> set n. \<not> netloc_delim c"
    and r2_hd: "n \<noteq> [] \<longrightarrow> r2 = [] \<or> netloc_delim (hd r2)"
    using split_netloc_props[OF s2] by blast+
  have r4_sub: "set r4 \<subseteq> set r2"
    unfolding r4_def by (auto dest!: set_takeWhileD)
  have r4_no: "\<forall>c \<in> set r4. c \<noteq> CHR ''#'' \<and> c \<noteq> CHR ''?''"
  proof
    fix c assume c: "c \<in> set r4"
    then have a: "c \<noteq> CHR ''?''" unfolding r4_def by (blast dest: set_takeWhileD)
    from c have "c \<in> set (takeWhile (\<lambda>c. c \<noteq> CHR ''#'') r2)"
      unfolding r4_def by (blast dest: set_takeWhileD)
    then have "c \<noteq> CHR ''#''" by (blast dest: set_takeWhileD)
    with a show "c \<noteq> CHR ''#'' \<and> c \<noteq> CHR ''?''" by simp
  qed
  have p_sub: "set p \<subseteq> set r4"
    unfolding p_def using set_split_params[of r4] by simp
  show "\<forall>c \<in> set (url_netloc pr). \<not> netloc_delim c \<and> \<not> unsafe_byte c"
  proof
    fix c assume "c \<in> set (url_netloc pr)"
    then have cn: "c \<in> set n" unfolding pr by simp
    then have "c \<in> set r1" using n_sub by blast
    then have "\<not> unsafe_byte c" using safe1 by blast
    then show "\<not> netloc_delim c \<and> \<not> unsafe_byte c" using n_delim cn by blast
  qed
  show "\<forall>c \<in> set (url_path pr). c \<noteq> CHR ''#'' \<and> c \<noteq> CHR ''?'' \<and> \<not> unsafe_byte c"
  proof
    fix c assume "c \<in> set (url_path pr)"
    then have c4: "c \<in> set r4" using p_sub unfolding pr by auto
    then have "c \<in> set r1" using r4_sub r2_sub by blast
    then have "\<not> unsafe_byte c" using safe1 by blast
    then show "c \<noteq> CHR ''#'' \<and> c \<noteq> CHR ''?'' \<and> \<not> unsafe_byte c"
      using r4_no c4 by blast
  qed
  show "url_netloc pr \<noteq> [] \<longrightarrow> url_path pr = [] \<or> hd (url_path pr) = CHR ''/''"
  proof
    assume "url_netloc pr \<noteq> []"
    then have "n \<noteq> []" unfolding pr by simp
    with r2_hd have "r2 = [] \<or> netloc_delim (hd r2)" by simp
    then have r4_hd: "r4 = [] \<or> hd r4 = CHR ''/''"
      unfolding r4_def by (rule takeWhile_hd_cases)
    have "p = [] \<or> hd p = CHR ''/''"
    proof (cases "sch \<in> set uses_params \<and> CHR '';'' \<in> set r4")
      case True
      then have "r4 \<noteq> []" by auto
      with r4_hd have "hd r4 = CHR ''/''" by simp
      with \<open>r4 \<noteq> []\<close> True show ?thesis
        unfolding p_def using hd_split_params[of r4] by simp
    next
      case False
      then show ?thesis unfolding p_def using r4_hd by auto
    qed
    then show "url_path pr = [] \<or> hd (url_path pr) = CHR ''/''" unfolding pr by simp
  qed
  show "url_netloc pr \<noteq> [] \<longrightarrow> netloc_check L (url_netloc pr) = None"
    using chk unfolding pr by (auto split: if_splits)
qed


lemma sanitize_url_id:
  assumes "u \<noteq> []" "\<not> c0_or_space (hd u)" "\<forall>c \<in> set u. \<not> unsafe_byte c"
  shows "sanitize_url u = u"
proof -
  obtain a as where u: "u = a # as" using assms(1) by (cases u) auto
  have "dropWhile c0_or_space u = u" using assms(2) unfolding u by simp
  moreover have "filter (\<lambda>c. \<not> unsafe_byte c) u = u" using assms(3) by (simp add: filter_id_conv)
  ultimately show ?thesis by (simp add: sanitize_url_def)
qed

lemma split_netloc_canonical:
  assumes n: "\<forall>c \<in> set n. \<not> netloc_delim c" and p: "p \<noteq> []" "hd p = CHR ''/''"
  shows "split_netloc (''//'' @ n @ p) = (n, p)"
proof -
  obtain q where q: "p = CHR ''/'' # q" using p by (cases p) auto
  have d: "netloc_delim (CHR ''/'')" by (simp add: netloc_delim_def)
  have t: "takeWhile (\<lambda>c. \<not> netloc_delim c) (n @ p) = n"
    using n d unfolding q by simp
  have dr: "dropWhile (\<lambda>c. \<not> netloc_delim c) (n @ p) = p"
    using n d unfolding q by simp
  show ?thesis using t dr by (simp add: split_netloc_def)
qed

lemma split_scheme_http1:
  "split_scheme (''http'' @ ''://'' @ rest) = (''http'', ''//'' @ rest)"
  by (simp add: split_scheme_def Let_def is_ascii_alpha_def scheme_char_def is_ascii_digit_def
      lower_def lower_char_def)

lemma split_scheme_http2:
  "split_scheme (''https'' @ ''://'' @ rest) = (''https'', ''//'' @ rest)"
  by (simp add: split_scheme_def Let_def is_ascii_alpha_def scheme_char_def is_ascii_digit_def
      lower_def lower_char_def)

lemma split_scheme_http:
  assumes "s = ''http'' \<or> s = ''https''"
  shows "split_scheme (s @ ''://'' @ rest) = (s, ''//'' @ rest)"
  using assms split_scheme_http1[of rest] split_scheme_http2[of rest] by blast

lemma http_prefix_safe:
  assumes "s = ''http'' \<or> s = ''https''"
  shows "\<forall>c \<in> set (s @ ''://''). \<not> unsafe_byte c"
    and "\<not> c0_or_space (hd (s @ ''://'' @ rest))"
  using assms by (auto simp: unsafe_byte_def c0_or_space_def)

lemma urlparse_canonical:
  assumes s: "s = ''http'' \<or> s = ''https''"
    and n: "n \<noteq> []" "\<forall>c \<in> set n. \<not> netloc_delim c \<and> \<not> unsafe_byte c"
    and p: "p \<noteq> []" "hd p = CHR ''/''" "last p = CHR ''/''"
           "\<forall>c \<in> set p. c \<noteq> CHR ''#'' \<and> c \<noteq> CHR ''?'' \<and> \<not> unsafe_byte c"
    and chk: "netloc_check L n = None"
  shows "urlparse L (s @ ''://'' @ n @ p) = Inr \<lparr>url_scheme = s, url_netloc = n, url_path = p\<rparr>"
proof -
  have all_safe: "\<forall>c \<in> set (s @ ''://'' @ n @ p). \<not> unsafe_byte c"
  proof
    fix c assume "c \<in> set (s @ ''://'' @ n @ p)"
    then consider "c \<in> set (s @ ''://'')" | "c \<in> set n" | "c \<in> set p" by auto
    then show "\<not> unsafe_byte c"
    proof cases
      case 1 then show ?thesis using http_prefix_safe(1)[OF s] by blast
    next
      case 2 then show ?thesis using n(2) by blast
    next
      case 3 then show ?thesis using p(4) by blast
    qed
  qed
  have "s @ ''://'' @ n @ p \<noteq> []" by simp
  then have san: "sanitize_url (s @ ''://'' @ n @ p) = s @ ''://'' @ n @ p"
    using http_prefix_safe(2)[OF s] all_safe by (rule sanitize_url_id)
  have sch: "split_scheme (s @ ''://'' @ n @ p) = (s, ''//'' @ n @ p)"
    using s by (rule split_scheme_http)
  have n_delim: "\<forall>c \<in> set n. \<not> netloc_delim c" using n(2) by blast
  have nl: "split_netloc (''//'' @ n @ p) = (n, p)"
    using n_delim p(1) p(2) by (rule split_netloc_canonical)
  have p_hash: "\<forall>c \<in> set p. c \<noteq> CHR ''#''" and p_q: "\<forall>c \<in> set p. c \<noteq> CHR ''?''"
    using p(4) by blast+
  have t1: "takeWhile (\<lambda>c. c \<noteq> CHR ''#'') p = p"
    using p_hash by simp
  have t2: "takeWhile (\<lambda>c. c \<noteq> CHR ''?'') p = p"
    using p_q by simp
  have sp: "split_params p = p" using p(1,3) by (rule split_params_slash_end)
  have chk': "(if n = [] then None else netloc_check L n) = None"
    using n(1) chk by simp
  show ?thesis
    unfolding urlparse_def san sch split_conv Let_def nl t1 t2 sp chk'
    by simp
qed


lemma suffix_single: "suffix [c] xs = (xs \<noteq> [] \<and> last xs = c)"
proof (cases xs rule: rev_cases)
  case Nil then show ?thesis by simp
next
  case (snoc ys y) then show ?thesis by (auto simp: suffix_def)
qed

lemma suffix_last: "suffix e xs \<Longrightarrow> e \<noteq> [] \<Longrightarrow> last xs = last e"
  by (auto simp: suffix_def)

lemma skip_ext_last: "ext \<in> set SKIP_EXTENSIONS \<Longrightarrow> ext \<noteq> [] \<and> last ext \<noteq> CHR ''/''"
proof -
  have "\<forall>e \<in> set SKIP_EXTENSIONS. e \<noteq> [] \<and> last e \<noteq> CHR ''/''"
    unfolding SKIP_EXTENSIONS_def by simp
  then show "ext \<in> set SKIP_EXTENSIONS \<Longrightarrow> ext \<noteq> [] \<and> last ext \<noteq> CHR ''/''" by blast
qed

lemma not_skipped_slash:
  assumes "p \<noteq> []" "last p = CHR ''/''"
  shows "\<not> skipped_extension p"
proof
  assume "skipped_extension p"
  then obtain ext where e: "ext \<in> set SKIP_EXTENSIONS" "suffix ext (lower p)"
    unfolding skipped_extension_def by blast
  have "last (lower p) = CHR ''/''"
    using assms by (simp add: lower_def last_map lower_char_def)
  moreover have "last (lower p) = last ext"
    using e skip_ext_last suffix_last by blast
  ultimately show False using skip_ext_last[OF e(1)] by simp
qed

lemma remove_all_Nil_host: "remove_all pat 0 [] = []"
  by simp

lemma in_scope_nonempty:
  assumes "domain self \<noteq> []" "in_scope self host"
  shows "host \<noteq> []"
proof
  assume "host = []"
  then have "in_scope self []" using assms(2) by simp
  then show False using assms(1) by (auto simp: in_scope_def split: if_splits)
qed


lemma normalize_url_SomeD:
  assumes "normalize_url L self u p = Inr (Some r)"
  obtains u' pr where "resolved_url L self u p = Inr u'" "urlparse L u' = Inr pr"
    "url_scheme pr = ''http'' \<or> url_scheme pr = ''https''"
    "in_scope self (url_netloc pr)" "\<not> skipped_extension (url_path pr)"
    "r = with_slash (url_scheme pr @ ''://'' @ url_netloc pr @ url_path pr)"
proof (cases "resolved_url L self u p")
  case (Inl e)
  then show ?thesis using assms by (simp add: normalize_url_def)
next
  case (Inr u')
  show ?thesis
  proof (cases "urlparse L u'")
    case (Inl e)
    then show ?thesis using assms Inr by (simp add: normalize_url_def)
  next
    case pr: (Inr pr)
    have "(if url_scheme pr \<notin> {''http'', ''https''} then None
           else if \<not> in_scope self (url_netloc pr) then None
           else if skipped_extension (url_path pr) then None
           else Some (with_slash (url_scheme pr @ ''://'' @ url_netloc pr @ url_path pr))) = Some r"
      using assms Inr pr by (simp add: normalize_url_def)
    then have "url_scheme pr = ''http'' \<or> url_scheme pr = ''https''"
      "in_scope self (url_netloc pr)" "\<not> skipped_extension (url_path pr)"
      "r = with_slash (url_scheme pr @ ''://'' @ url_netloc pr @ url_path pr)"
      by (auto split: if_splits)
    then show ?thesis using that Inr pr by blast
  qed
qed

lemma with_slash_path:
  assumes n: "n \<noteq> []" "\<forall>c \<in> set n. \<not> netloc_delim c"
  shows "with_slash (s @ ''://'' @ n @ pa) =
         s @ ''://'' @ n @ (if pa \<noteq> [] \<and> last pa = CHR ''/'' then pa else pa @ ''/'')"
proof (cases "pa = []")
  case True
  have "last n \<in> set n" using n(1) by simp
  then have "last n \<noteq> CHR ''/''" using n(2) by (auto simp: netloc_delim_def)
  then show ?thesis using True n(1) by (simp add: with_slash_def suffix_single)
next
  case False
  then show ?thesis by (simp add: with_slash_def suffix_single)
qed

text \<open>
  C9, as the code has it. Normalisation is idempotent in a crawl whose root domain (the
  host of the seed without \<open>www.\<close>) is not empty: when \<open>_normalize_url\<close> accepts a link
  \<open>u\<close> found on page \<open>p\<close>, giving \<open>r\<close>, then normalising \<open>r\<close> with the same parent
  gives \<open>r\<close> again.
\<close>

theorem normalize_idempotent:
  assumes dom: "domain self \<noteq> []"
    and r: "normalize_url L self u p = Inr (Some r)"
  shows "normalize_url L self r p = Inr (Some r)"
proof -
  from r obtain u' pr where
    pr: "urlparse L u' = Inr pr"
    and sch: "url_scheme pr = ''http'' \<or> url_scheme pr = ''https''"
    and scope: "in_scope self (url_netloc pr)"
    and r_eq: "r = with_slash (url_scheme pr @ ''://'' @ url_netloc pr @ url_path pr)"
    by (rule normalize_url_SomeD)
  define s n pa where "s = url_scheme pr" and "n = url_netloc pr" and "pa = url_path pr"
  define pa' where "pa' = (if pa \<noteq> [] \<and> last pa = CHR ''/'' then pa else pa @ ''/'')"
  have n_ne: "n \<noteq> []" using in_scope_nonempty[OF dom scope] by (simp add: n_def)
  have n_ok: "\<forall>c \<in> set n. \<not> netloc_delim c \<and> \<not> unsafe_byte c"
    using urlparse_props(1)[OF pr] by (simp add: n_def)
  have pa_ok: "\<forall>c \<in> set pa. c \<noteq> CHR ''#'' \<and> c \<noteq> CHR ''?'' \<and> \<not> unsafe_byte c"
    using urlparse_props(2)[OF pr] by (simp add: pa_def)
  have pa_hd: "pa = [] \<or> hd pa = CHR ''/''"
    using urlparse_props(3)[OF pr] n_ne by (simp add: n_def pa_def)
  have chk: "netloc_check L n = None"
    using urlparse_props(4)[OF pr] n_ne by (simp add: n_def)
  have n_delim: "\<forall>c \<in> set n. \<not> netloc_delim c" using n_ok by blast
  have r_form: "r = s @ ''://'' @ n @ pa'"
    unfolding r_eq pa'_def s_def[symmetric] n_def[symmetric] pa_def[symmetric]
    using n_ne n_delim by (rule with_slash_path)
  have pa'_ne: "pa' \<noteq> []" and pa'_last: "last pa' = CHR ''/''"
    by (simp_all add: pa'_def)
  have pa'_hd: "hd pa' = CHR ''/''"
    using pa_hd by (cases pa) (auto simp: pa'_def)
  have slash_safe: "\<not> unsafe_byte (CHR ''/'')" by (simp add: unsafe_byte_def)
  have pa'_ok: "\<forall>c \<in> set pa'. c \<noteq> CHR ''#'' \<and> c \<noteq> CHR ''?'' \<and> \<not> unsafe_byte c"
  proof
    fix c assume "c \<in> set pa'"
    then consider "c \<in> set pa" | "c = CHR ''/''" by (auto simp: pa'_def split: if_splits)
    then show "c \<noteq> CHR ''#'' \<and> c \<noteq> CHR ''?'' \<and> \<not> unsafe_byte c"
    proof cases
      case 1 then show ?thesis using pa_ok by blast
    next
      case 2 then show ?thesis using slash_safe by simp
    qed
  qed
  have s_http: "s = ''http'' \<or> s = ''https''" using sch by (simp add: s_def)
  have parse_r: "urlparse L r = Inr \<lparr>url_scheme = s, url_netloc = n, url_path = pa'\<rparr>"
    unfolding r_form
    using s_http n_ne n_ok pa'_ne pa'_hd pa'_last pa'_ok chk by (rule urlparse_canonical)
  have res_r: "resolved_url L self r p = Inr r"
    using s_http unfolding r_form by (auto simp: resolved_url_def)
  have ext_r: "\<not> skipped_extension pa'"
    using pa'_ne pa'_last by (rule not_skipped_slash)
  have slash_r: "with_slash (s @ ''://'' @ n @ pa') = s @ ''://'' @ n @ pa'"
    using pa'_ne pa'_last by (simp add: with_slash_def suffix_single)
  have scope_r: "in_scope self n" using scope by (simp add: n_def)
  show ?thesis
    unfolding normalize_url_def res_r sum.case parse_r
    using s_http scope_r ext_r slash_r r_form by auto
qed

text \<open>A link with a query and a fragment, and its normal form.\<close>

theorem normalize_idempotent_witness:
  "domain example_crawler \<noteq> [] \<and>
   normalize_url example_libs example_crawler ''https://example.com/about?x=1#top''
     ''https://example.com'' = Inr (Some ''https://example.com/about/'') \<and>
   normalize_url example_libs example_crawler ''https://example.com/about/''
     ''https://example.com'' = Inr (Some ''https://example.com/about/'')"
proof -
  have d: "domain example_crawler \<noteq> []" by (simp add: example_crawler_def)
  have n: "normalize_url example_libs example_crawler ''https://example.com/about?x=1#top''
     ''https://example.com'' = Inr (Some ''https://example.com/about/'')"
    by code_simp
  from normalize_idempotent[OF d n] d n show ?thesis by simp
qed

text \<open>
  The claim C9 as stated fails: in the crawl of the seed \<open>https://www./\<close>, whose root
  domain is empty, the link \<open>http:a/b\<close> has no host and is accepted as
  \<open>http://a/b/\<close>; that result has the host \<open>a\<close> and is refused.
\<close>

theorem normalize_not_idempotent_counterexample:
  "domain www_crawler = [] \<and>
   normalize_url other_scheme_libs www_crawler ''http:a/b'' ''https://www./''
     = Inr (Some ''http://a/b/'') \<and>
   normalize_url other_scheme_libs www_crawler ''http://a/b/'' ''https://www./'' = Inr None \<and>
   normalize_url other_scheme_libs www_crawler ''http://a/b/'' ''https://www./''
     \<noteq> normalize_url other_scheme_libs www_crawler ''http:a/b'' ''https://www./''"
  by code_simp

text \<open>
  C4, at the input where the code leaves the claim: the crawl of \<open>https://example.com\<close>
  without subdomains accepts a link to the host \<open>exawww.mple.com\<close>, because
  \<open>replace('www.', '')\<close> removes \<open>www.\<close> wherever it stands in the host, not only in
  front.
\<close>

theorem normalize_www_anywhere:
  "remove_all ''www.'' 0 ''exawww.mple.com'' = domain example_crawler \<and>
   normalize_url example_libs example_crawler ''https://exawww.mple.com/'' ''https://example.com''
     = Inr (Some ''https://exawww.mple.com/'')"
  by code_simp

section \<open>The cascade: lemmas on the cleaned document\<close>















section \<open>The cascade runs its table in order\<close>


























section \<open>The crawl loop: what every iteration keeps\<close>

lemma dict_set_keys: "fst ` set (dict_set d k v) = insert k (fst ` set d)"
  by (induction d k v rule: dict_set.induct) auto

lemma record_failure_keys:
  "fst ` set (failed_urls (record_failure url e s)) = insert url (fst ` set (failed_urls s))"
  by (simp add: record_failure_def dict_set_keys)

lemma sleep_after_keys:
  "fst ` set (failed_urls (sleep_after self url s)) =
     (if delay self < 0 then insert url (fst ` set (failed_urls s)) else fst ` set (failed_urls s))"
  by (simp add: sleep_after_def Let_def record_failure_def dict_set_keys)

lemma process_page_visited:
  "visited_urls (process_page L W self url s) = visited_urls s"
  by (simp add: process_page_def is_duplicate_content_def Let_def sleep_after_fields
      record_failure_fields split: prod.splits sum.splits)

lemma process_page_fetched:
  "fetched (process_page L W self url s) = fetched s @ [url]"
  by (simp add: process_page_def is_duplicate_content_def Let_def sleep_after_fields
      record_failure_fields split: prod.splits sum.splits)

lemma process_page_pages:
  "pages_crawled (process_page L W self url s) \<le> pages_crawled s + 1"
  by (simp add: process_page_def is_duplicate_content_def Let_def sleep_after_fields
      record_failure_fields split: prod.splits sum.splits)

lemma process_page_failed:
  "fst ` set (failed_urls (process_page L W self url s)) \<subseteq> insert url (fst ` set (failed_urls s))"
  by (simp add: process_page_def is_duplicate_content_def Let_def sleep_after_keys
      record_failure_keys subset_insertI split: prod.splits sum.splits)

lemma process_page_hashes:
  assumes "md5_hex L ` set (extracted s) \<subseteq> content_hashes s"
  shows "md5_hex L ` set (extracted (process_page L W self url s))
           \<subseteq> content_hashes (process_page L W self url s)"
  using assms
  by (auto simp: process_page_def is_duplicate_content_def Let_def sleep_after_fields
      record_failure_fields split: prod.splits sum.splits)

lemma crawl_step_visited:
  assumes "queue s = url # rest" "url \<in> visited_urls s"
  shows "crawl_step L W self s = s\<lparr>queue := rest\<rparr>"
  using assms by (simp add: crawl_step_def)

lemma crawl_step_blocked:
  assumes "queue s = url # rest" "url \<notin> visited_urls s" "\<not> can_fetch self url"
  shows "crawl_step L W self s =
         record_failure url ''Blocked by robots.txt''
           (s\<lparr>queue := rest, visited_urls := insert url (visited_urls s)\<rparr>)"
  using assms by (simp add: crawl_step_def Let_def)

lemma crawl_step_process:
  assumes "queue s = url # rest" "url \<notin> visited_urls s" "can_fetch self url"
  shows "crawl_step L W self s =
         process_page L W self url (s\<lparr>queue := rest, visited_urls := insert url (visited_urls s)\<rparr>)"
  using assms by (simp add: crawl_step_def Let_def)

lemma crawl_step_empty: "queue s = [] \<Longrightarrow> crawl_step L W self s = s"
  by (simp add: crawl_step_def)

lemma crawl_step_visited_mono: "visited_urls s \<subseteq> visited_urls (crawl_step L W self s)"
proof (cases "queue s")
  case Nil then show ?thesis by (simp add: crawl_step_empty)
next
  case (Cons url rest)
  show ?thesis
  proof (cases "url \<in> visited_urls s")
    case True then show ?thesis by (simp add: crawl_step_visited[OF Cons])
  next
    case False
    show ?thesis
    proof (cases "can_fetch self url")
      case True
      show ?thesis
        by (auto simp: crawl_step_process[OF Cons False True] process_page_visited)
    next
      case nf: False
      show ?thesis
        by (auto simp: crawl_step_blocked[OF Cons False nf] record_failure_fields)
    qed
  qed
qed

lemma crawl_inv_initial: "0 \<le> max_pages self \<Longrightarrow> crawl_inv L self (initial_state W self)"
  by (simp add: crawl_inv_def initial_state_def)

lemma crawl_inv_step:
  assumes inv: "crawl_inv L self s" and g: "loop_guard self s"
  shows "crawl_inv L self (crawl_step L W self s)"
proof -
  from g obtain url rest where q: "queue s = url # rest"
    by (cases "queue s") (auto simp: loop_guard_def)
  from g have lt: "pages_crawled s < max_pages self" by (simp add: loop_guard_def)
  from inv have i1: "pages_crawled s \<le> max_pages self"
    and i2: "fst ` set (failed_urls s) \<subseteq> visited_urls s"
    and i3: "distinct (fetched s)"
    and i4: "set (fetched s) \<subseteq> visited_urls s"
    and i5: "md5_hex L ` set (extracted s) \<subseteq> content_hashes s"
    by (simp_all add: crawl_inv_def)
  show ?thesis
  proof (cases "url \<in> visited_urls s")
    case True
    show ?thesis using inv by (simp add: crawl_step_visited[OF q True] crawl_inv_def)
  next
    case False
    let ?s1 = "s\<lparr>queue := rest, visited_urls := insert url (visited_urls s)\<rparr>"
    show ?thesis
    proof (cases "can_fetch self url")
      case nf: False
      show ?thesis
        unfolding crawl_step_blocked[OF q False nf] crawl_inv_def
        using i1 i2 i3 i4 i5 by (auto simp: record_failure_fields record_failure_keys)
    next
      case True
      let ?s2 = "process_page L W self url ?s1"
      have p: "pages_crawled ?s2 \<le> max_pages self"
        using process_page_pages[of L W self url ?s1] lt by simp
      have f: "fst ` set (failed_urls ?s2) \<subseteq> visited_urls ?s2"
        using process_page_failed[of L W self url ?s1] i2
        by (auto simp: process_page_visited)
      have nfetched: "url \<notin> set (fetched s)" using i4 False by blast
      have d: "distinct (fetched ?s2)"
        using i3 nfetched by (simp add: process_page_fetched)
      have fs: "set (fetched ?s2) \<subseteq> visited_urls ?s2"
        using i4 by (auto simp: process_page_fetched process_page_visited)
      have h1: "md5_hex L ` set (extracted ?s1) \<subseteq> content_hashes ?s1" using i5 by simp
      have h: "md5_hex L ` set (extracted ?s2) \<subseteq> content_hashes ?s2"
        using h1 by (rule process_page_hashes)
      show ?thesis
        unfolding crawl_step_process[OF q False True] crawl_inv_def
        using p f d fs h by blast
    qed
  qed
qed

lemma reachable_inv:
  assumes "0 \<le> max_pages self" "reachable L W self s"
  shows "crawl_inv L self s"
  using assms(2)
proof (induction rule: reachable.induct)
  case start show ?case using assms(1) by (rule crawl_inv_initial)
next
  case (iterate s) then show ?case by (simp add: crawl_inv_step)
qed

text \<open>The crawlers of the examples are what \<open>__init__\<close> builds from their seeds.\<close>

lemma example_crawler_init:
  "init_crawler example_libs example_world ''https://example.com'' False 100 0 False
     = Inr example_crawler"
proof -
  have p: "urlparse example_libs ''https://example.com'' =
           Inr \<lparr>url_scheme = ''https'', url_netloc = ''example.com'', url_path = []\<rparr>"
    by code_simp
  have d: "remove_all ''www.'' 0 ''example.com'' = ''example.com''" by code_simp
  show ?thesis by (simp add: init_crawler_def p d example_crawler_def)
qed

lemma twin_crawler_init:
  "init_crawler twin_libs twin_world twin_seed False 10 0 False = Inr twin_crawler"
proof -
  have p: "urlparse twin_libs twin_seed =
           Inr \<lparr>url_scheme = ''http'', url_netloc = ''a'',
                url_path = ''/*Extracted using: body-fallback*''\<rparr>"
    by code_simp
  have d: "remove_all ''www.'' 0 ''a'' = ''a''" by code_simp
  show ?thesis by (simp add: init_crawler_def p d twin_crawler_def)
qed

lemma www_crawler_init:
  "init_crawler other_scheme_libs example_world ''https://www./'' False 100 0 False
     = Inr www_crawler"
proof -
  have p: "urlparse other_scheme_libs ''https://www./'' =
           Inr \<lparr>url_scheme = ''https'', url_netloc = ''www.'', url_path = ''/''\<rparr>"
    by code_simp
  have d: "remove_all ''www.'' 0 ''www.'' = []" by code_simp
  show ?thesis by (simp add: init_crawler_def p d www_crawler_def)
qed

lemma crawl_loop_reachable:
  "reachable L W self s \<Longrightarrow> reachable L W self (crawl_loop L W self s)"
proof (induction L W self s rule: crawl_loop.induct)
  case (1 L W self s)
  show ?case
  proof (cases "loop_guard self s")
    case True
    have "reachable L W self (crawl_step L W self s)"
      using "1.prems" True by (rule reachable.iterate)
    from "1.IH"[OF True this] True show ?thesis by simp
  next
    case False
    then show ?thesis using "1.prems" by simp
  qed
qed

text \<open>
  C6. With a page budget that is not negative, every state at the head of the loop of a
  crawl satisfies the invariant of the crawl state: \<open>pages_crawled\<close> is at most
  \<open>max_pages\<close>; every URL in \<open>failed_urls\<close> is in \<open>visited_urls\<close>; no URL was given to the
  fetch pipeline twice (\<open>fetched\<close> has no repetition) and every URL given to it had been
  put in \<open>visited_urls\<close>; and an iteration only adds to \<open>visited_urls\<close>.
\<close>

theorem crawl_state_invariant:
  assumes "0 \<le> max_pages self" and "reachable L W self s"
  shows "pages_crawled s \<le> max_pages self \<and>
         fst ` set (failed_urls s) \<subseteq> visited_urls s \<and>
         distinct (fetched s) \<and>
         set (fetched s) \<subseteq> visited_urls s \<and>
         visited_urls s \<subseteq> visited_urls (crawl_step L W self s)"
  using reachable_inv[OF assms] crawl_step_visited_mono[of s L W self]
  by (simp add: crawl_inv_def)

text \<open>The state at the end of the crawl of the example site.\<close>

theorem crawl_state_invariant_witness:
  "0 \<le> max_pages example_crawler \<and>
   reachable example_libs example_world example_crawler
     (crawl_loop example_libs example_world example_crawler
        (initial_state example_world example_crawler)) \<and>
   fetched (crawl_loop example_libs example_world example_crawler
        (initial_state example_world example_crawler))
     = [''https://example.com'', ''https://example.com/''] \<and>
   pages_crawled (crawl_loop example_libs example_world example_crawler
        (initial_state example_world example_crawler)) \<le> max_pages example_crawler \<and>
   fst ` set (failed_urls (crawl_loop example_libs example_world example_crawler
        (initial_state example_world example_crawler)))
     \<subseteq> visited_urls (crawl_loop example_libs example_world example_crawler
        (initial_state example_world example_crawler)) \<and>
   distinct (fetched (crawl_loop example_libs example_world example_crawler
        (initial_state example_world example_crawler))) \<and>
   set (fetched (crawl_loop example_libs example_world example_crawler
        (initial_state example_world example_crawler)))
     \<subseteq> visited_urls (crawl_loop example_libs example_world example_crawler
        (initial_state example_world example_crawler))"
proof -
  let ?s = "crawl_loop example_libs example_world example_crawler
              (initial_state example_world example_crawler)"
  have m: "0 \<le> max_pages example_crawler" by (simp add: example_crawler_def)
  have r: "reachable example_libs example_world example_crawler ?s"
    using reachable.start by (rule crawl_loop_reachable)
  have f: "fetched ?s = [''https://example.com'', ''https://example.com/'']" by code_simp
  from crawl_state_invariant[OF m r] m r f show ?thesis by simp
qed


lemma reachable_hashes:
  "reachable L W self s \<Longrightarrow> md5_hex L ` set (extracted s) \<subseteq> content_hashes s"
proof (induction rule: reachable.induct)
  case start show ?case by (simp add: initial_state_def)
next
  case (iterate s)
  from iterate.hyps(2) obtain url rest where q: "queue s = url # rest"
    by (cases "queue s") (auto simp: loop_guard_def)
  show ?case
  proof (cases "url \<in> visited_urls s")
    case True
    show ?thesis using iterate.IH by (simp add: crawl_step_visited[OF q True])
  next
    case False
    show ?thesis
    proof (cases "can_fetch self url")
      case nf: False
      show ?thesis using iterate.IH
        by (simp add: crawl_step_blocked[OF q False nf] record_failure_fields)
    next
      case True
      have "md5_hex L ` set (extracted (s\<lparr>queue := rest, visited_urls := insert url (visited_urls s)\<rparr>))
              \<subseteq> content_hashes (s\<lparr>queue := rest, visited_urls := insert url (visited_urls s)\<rparr>)"
        using iterate.IH by simp
      then show ?thesis
        unfolding crawl_step_process[OF q False True] by (rule process_page_hashes)
    qed
  qed
qed

lemma process_page_duplicate:
  assumes "parse_url_to_markdown L W url (llms_md s) = (Inr m, file)"
    and "md5_hex L m \<in> content_hashes s"
  shows "process_page L W self url s =
         s\<lparr>llms_md := file, fetched := fetched s @ [url], extracted := extracted s @ [m],
           pages_crawled := pages_crawled s + 1\<rparr>"
  using assms by (simp add: process_page_def is_duplicate_content_def Let_def)

text \<open>
  The branch for a duplicate page: when the Markdown that \<open>parse_url_to_markdown\<close>
  returns is that of a page extracted earlier in the same crawl, the iteration counts
  the page in \<open>pages_crawled\<close>, leaves the aggregate \<open>all_markdown\<close> as it was, appends no
  section, enqueues no link of the page and does not sleep. That Markdown starts with
  the address of the page, so the branch is taken only for an address whose own text
  holds the heading that follows it.
\<close>

theorem duplicate_page_step:
  assumes "reachable L W self s" and "loop_guard self s"
    and "queue s = url # rest" and "url \<notin> visited_urls s" and "can_fetch self url"
    and "parse_url_to_markdown L W url (llms_md s) = (Inr m, file)"
    and "m \<in> set (extracted s)"
  shows "pages_crawled (crawl_step L W self s) = pages_crawled s + 1 \<and>
         all_markdown (crawl_step L W self s) = all_markdown s \<and>
         appended (crawl_step L W self s) = appended s \<and>
         queue (crawl_step L W self s) = rest \<and>
         slept_after (crawl_step L W self s) = slept_after s"
proof -
  let ?s1 = "s\<lparr>queue := rest, visited_urls := insert url (visited_urls s)\<rparr>"
  have "md5_hex L m \<in> content_hashes s"
    using reachable_hashes[OF assms(1)] assms(7) by blast
  then have h: "md5_hex L m \<in> content_hashes ?s1" by simp
  have p: "parse_url_to_markdown L W url (llms_md ?s1) = (Inr m, file)"
    using assms(6) by simp
  show ?thesis
    unfolding crawl_step_process[OF assms(3,4,5)] process_page_duplicate[OF p h]
    by simp
qed

text \<open>
  The second iteration on the site with two addresses for one Markdown text.
\<close>

theorem duplicate_page_step_witness:
  "reachable twin_libs twin_world twin_crawler
     (crawl_step twin_libs twin_world twin_crawler (initial_state twin_world twin_crawler)) \<and>
   loop_guard twin_crawler
     (crawl_step twin_libs twin_world twin_crawler (initial_state twin_world twin_crawler)) \<and>
   queue (crawl_step twin_libs twin_world twin_crawler (initial_state twin_world twin_crawler))
     = [''http://a/''] \<and>
   ''http://a/'' \<notin> visited_urls
     (crawl_step twin_libs twin_world twin_crawler (initial_state twin_world twin_crawler)) \<and>
   can_fetch twin_crawler ''http://a/'' \<and>
   fst (parse_url_to_markdown twin_libs twin_world ''http://a/''
     (llms_md (crawl_step twin_libs twin_world twin_crawler (initial_state twin_world twin_crawler))))
     = Inr (''# http://a/'' @ heading_tail @ heading_tail @ ''hello'') \<and>
   extracted (crawl_step twin_libs twin_world twin_crawler (initial_state twin_world twin_crawler))
     = [''# http://a/'' @ heading_tail @ heading_tail @ ''hello''] \<and>
   pages_crawled (crawl_step twin_libs twin_world twin_crawler
     (crawl_step twin_libs twin_world twin_crawler (initial_state twin_world twin_crawler))) = 2 \<and>
   all_markdown (crawl_step twin_libs twin_world twin_crawler
     (crawl_step twin_libs twin_world twin_crawler (initial_state twin_world twin_crawler)))
     = all_markdown (crawl_step twin_libs twin_world twin_crawler
         (initial_state twin_world twin_crawler)) \<and>
   queue (crawl_step twin_libs twin_world twin_crawler
     (crawl_step twin_libs twin_world twin_crawler (initial_state twin_world twin_crawler))) = [] \<and>
   slept_after (crawl_step twin_libs twin_world twin_crawler
     (crawl_step twin_libs twin_world twin_crawler (initial_state twin_world twin_crawler)))
     = [twin_seed]"
proof -
  let ?s0 = "initial_state twin_world twin_crawler"
  let ?s1 = "crawl_step twin_libs twin_world twin_crawler ?s0"
  let ?m = "''# http://a/'' @ heading_tail @ heading_tail @ ''hello''"
  have g0: "loop_guard twin_crawler ?s0"
    by (simp add: loop_guard_def initial_state_def twin_crawler_def)
  have r: "reachable twin_libs twin_world twin_crawler ?s1"
    using reachable.start g0 by (rule reachable.iterate)
  have g: "loop_guard twin_crawler ?s1" by code_simp
  have q: "queue ?s1 = [''http://a/'']" by code_simp
  have v: "''http://a/'' \<notin> visited_urls ?s1" by code_simp
  have c: "can_fetch twin_crawler ''http://a/''" by (simp add: can_fetch_def twin_crawler_def)
  have p: "parse_url_to_markdown twin_libs twin_world ''http://a/'' (llms_md ?s1) = (Inr ?m, ?m)"
    by code_simp
  have e: "extracted ?s1 = [?m]" by code_simp
  have pc: "pages_crawled ?s1 = 1" by code_simp
  have sl: "slept_after ?s1 = [twin_seed]" by code_simp
  have e': "?m \<in> set (extracted ?s1)" using e by simp
  from duplicate_page_step[OF r g q v c p e'] r g q v c p e pc sl
  show ?thesis by simp
qed

section \<open>Pacing, the seed and the output file\<close>

lemma duplicate_page_frame:
  "duplicate_page L W url (s\<lparr>queue := q, visited_urls := v\<rparr>) = duplicate_page L W url s"
  by (simp add: duplicate_page_def split: sum.splits)

lemma process_page_slept:
  "slept_after (process_page L W self url s) =
     slept_after s @ (if duplicate_page L W url s then [] else [url])"
  by (simp add: process_page_def is_duplicate_content_def duplicate_page_def Let_def
      sleep_after_fields record_failure_fields split: prod.splits sum.splits)

text \<open>
  C8, as the code has it. An iteration of the loop calls \<open>time.sleep\<close> once, at its
  end, unless the URL was skipped as already visited, was blocked by robots.txt, or gave
  a duplicate page; in these three cases it does not sleep. So the delay follows every
  page that was appended as a new page and also every page whose fetch, extraction or
  link discovery failed.
\<close>

theorem sleep_unless_skipped:
  assumes "queue s = url # rest"
  shows "slept_after (crawl_step L W self s) =
         slept_after s @
           (if url \<in> visited_urls s \<or> \<not> can_fetch self url \<or> duplicate_page L W url s
            then [] else [url])"
proof (cases "url \<in> visited_urls s")
  case True
  then show ?thesis by (simp add: crawl_step_visited[OF assms True])
next
  case False
  show ?thesis
  proof (cases "can_fetch self url")
    case nf: False
    show ?thesis using False nf
      by (simp add: crawl_step_blocked[OF assms False nf] record_failure_fields)
  next
    case True
    show ?thesis using False True
      by (simp add: crawl_step_process[OF assms False True] process_page_slept
          duplicate_page_frame)
  qed
qed

text \<open>
  The first iteration on a site that cannot be reached.
\<close>

theorem sleep_unless_skipped_witness:
  "queue (initial_state offline_world example_crawler) = [''https://example.com''] \<and>
   ''https://example.com'' \<notin> visited_urls (initial_state offline_world example_crawler) \<and>
   can_fetch example_crawler ''https://example.com'' \<and>
   \<not> duplicate_page example_libs offline_world ''https://example.com''
       (initial_state offline_world example_crawler) \<and>
   slept_after (crawl_step example_libs offline_world example_crawler
       (initial_state offline_world example_crawler)) = [''https://example.com'']"
proof -
  let ?s0 = "initial_state offline_world example_crawler"
  have q: "queue ?s0 = [''https://example.com'']"
    by (simp add: initial_state_def example_crawler_def)
  have v: "''https://example.com'' \<notin> visited_urls ?s0" by (simp add: initial_state_def)
  have c: "can_fetch example_crawler ''https://example.com''"
    by (simp add: can_fetch_def example_crawler_def)
  have d: "\<not> duplicate_page example_libs offline_world ''https://example.com'' ?s0"
    by code_simp
  have s: "slept_after ?s0 = []" by (simp add: initial_state_def)
  from sleep_unless_skipped[OF q, of example_libs offline_world example_crawler] q v c d s
  show ?thesis by simp
qed

text \<open>
  The claim C8 as stated fails: on a site that cannot be reached, the iteration for the
  seed fetches nothing, extracts nothing and appends nothing, and still ends with the
  delay; over the whole crawl no page is appended and the delay is taken once.
\<close>

theorem sleep_after_failure_counterexample:
  "fetched (crawl_step example_libs offline_world example_crawler
      (initial_state offline_world example_crawler)) = [''https://example.com''] \<and>
   extracted (crawl_step example_libs offline_world example_crawler
      (initial_state offline_world example_crawler)) = [] \<and>
   appended (crawl_step example_libs offline_world example_crawler
      (initial_state offline_world example_crawler)) = [] \<and>
   slept_after (crawl_step example_libs offline_world example_crawler
      (initial_state offline_world example_crawler)) = [''https://example.com''] \<and>
   appended (snd (crawl example_libs offline_world example_crawler)) = [] \<and>
   slept_after (snd (crawl example_libs offline_world example_crawler)) = [''https://example.com'']"
  by code_simp

lemma with_slash_suffix: "suffix ''/'' (with_slash x)"
  by (simp add: with_slash_def suffix_def)

lemma normalize_url_slash:
  assumes "normalize_url L self u p = Inr (Some r)"
  shows "suffix ''/'' r"
  using assms by (rule normalize_url_SomeD) (simp add: with_slash_suffix)

lemma first_step_visited:
  "visited_urls (crawl_step L W self (initial_state W self)) = {start_url self}"
proof -
  have q: "queue (initial_state W self) = start_url self # []"
    by (simp add: initial_state_def)
  have v: "start_url self \<notin> visited_urls (initial_state W self)"
    by (simp add: initial_state_def)
  show ?thesis
  proof (cases "can_fetch self (start_url self)")
    case True
    show ?thesis
      unfolding crawl_step_process[OF q v True]
      by (simp add: process_page_visited initial_state_def)
  next
    case False
    show ?thesis
      unfolding crawl_step_blocked[OF q v False]
      by (simp add: record_failure_fields initial_state_def)
  qed
qed

text \<open>
  C10. The seed is put in the queue, and by the first iteration in \<open>visited_urls\<close>, as
  it was given, not normalised. Every link that \<open>_normalize_url\<close> accepts ends with a
  slash, so a seed without a trailing slash is never the result of a normalisation: the
  link to the same page is another string. There is a crawl in which the page of the
  seed is fetched twice, once under the seed and once under the seed with the slash.
\<close>

theorem seed_not_normalized:
  "queue (initial_state W self) = [start_url self] \<and>
   visited_urls (crawl_step L W self (initial_state W self)) = {start_url self} \<and>
   (normalize_url L self u p = Inr (Some r) \<longrightarrow> suffix ''/'' r) \<and>
   (\<not> suffix ''/'' (start_url self) \<longrightarrow> normalize_url L self u p \<noteq> Inr (Some (start_url self))) \<and>
   (\<exists>L' W' self'. \<not> suffix ''/'' (start_url self') \<and>
      normalize_url L' self' (start_url self') (start_url self') = Inr (Some (start_url self' @ ''/'')) \<and>
      http_get W' (start_url self') = http_get W' (start_url self' @ ''/'') \<and>
      fetched (snd (crawl L' W' self')) = [start_url self', start_url self' @ ''/''])"
proof -
  have a: "queue (initial_state W self) = [start_url self]" by (simp add: initial_state_def)
  have b: "visited_urls (crawl_step L W self (initial_state W self)) = {start_url self}"
    by (rule first_step_visited)
  have c: "normalize_url L self u p = Inr (Some r) \<longrightarrow> suffix ''/'' r"
    using normalize_url_slash by blast
  have d: "\<not> suffix ''/'' (start_url self) \<longrightarrow> normalize_url L self u p \<noteq> Inr (Some (start_url self))"
    using normalize_url_slash by blast
  have e1: "\<not> suffix ''/'' (start_url example_crawler)" by code_simp
  have e2: "normalize_url example_libs example_crawler (start_url example_crawler)
              (start_url example_crawler) = Inr (Some (start_url example_crawler @ ''/''))"
    by code_simp
  have e3: "http_get example_world (start_url example_crawler)
              = http_get example_world (start_url example_crawler @ ''/'')"
    by code_simp
  have e4: "fetched (snd (crawl example_libs example_world example_crawler))
              = [start_url example_crawler, start_url example_crawler @ ''/'']"
    by code_simp
  from e1 e2 e3 e4 have e: "\<exists>L' W' self'. \<not> suffix ''/'' (start_url self') \<and>
      normalize_url L' self' (start_url self') (start_url self') = Inr (Some (start_url self' @ ''/'')) \<and>
      http_get W' (start_url self') = http_get W' (start_url self' @ ''/'') \<and>
      fetched (snd (crawl L' W' self')) = [start_url self', start_url self' @ ''/'']"
    by blast
  from a b c d e show ?thesis by blast
qed

text \<open>
  The seed \<open>https://example.com\<close> and the link to it.
\<close>

theorem seed_not_normalized_witness:
  "queue (initial_state example_world example_crawler) = [''https://example.com''] \<and>
   visited_urls (crawl_step example_libs example_world example_crawler
      (initial_state example_world example_crawler)) = {''https://example.com''} \<and>
   normalize_url example_libs example_crawler ''https://example.com'' ''https://example.com''
      = Inr (Some ''https://example.com/'') \<and>
   suffix ''/'' ''https://example.com/'' \<and>
   \<not> suffix ''/'' (start_url example_crawler) \<and>
   normalize_url example_libs example_crawler ''https://example.com'' ''https://example.com''
      \<noteq> Inr (Some (start_url example_crawler))"
proof -
  have n: "normalize_url example_libs example_crawler ''https://example.com'' ''https://example.com''
      = Inr (Some ''https://example.com/'')" by code_simp
  have e1: "\<not> suffix ''/'' (start_url example_crawler)" by code_simp
  have st: "start_url example_crawler = ''https://example.com''" by (simp add: example_crawler_def)
  from seed_not_normalized[of example_world example_crawler example_libs
        "''https://example.com''" "''https://example.com''" "''https://example.com/''"] n e1 st
  show ?thesis by simp
qed

text \<open>
  C3, at an input where the code leaves the claim. The crawl of the example site writes
  the title, the timestamp and the configuration line to \<open>llms.md\<close> first, but
  \<open>parse_url_to_markdown\<close> rewrites the same file for every page it returns: at the end
  the file starts with the Markdown of the last page, followed by that page's section
  and the summary. The returned text never held the three lines: it starts with the
  first page section.
\<close>

theorem crawl_output_without_header:
  "file_header example_world example_crawler =
     ''# Website Crawl: https://example.com'' @ [NL, NL] @
     ''*Generated on 2025-01-01 00:00:00*'' @ [NL, NL] @
     ''*Crawl configuration: max_pages=100, allow_subdomains=False*'' @ [NL, NL] \<and>
   llms_md (snd (crawl example_libs example_world example_crawler)) =
     (''# https://example.com/'' @ [NL, NL] @ ''*Extracted using: body-fallback*'' @ [NL, NL] @
      ''<body><a href=https://example.com>home</a></body>'') @
     page_section ''/''
       (''# https://example.com/'' @ [NL, NL] @ ''*Extracted using: body-fallback*'' @ [NL, NL] @
        ''<body><a href=https://example.com>home</a></body>'') @
     summary (snd (crawl example_libs example_world example_crawler)) \<and>
   fst (crawl example_libs example_world example_crawler) =
     page_section ''/''
       (''# https://example.com'' @ [NL, NL] @ ''*Extracted using: body-fallback*'' @ [NL, NL] @
        ''<body><a href=https://example.com>home</a></body>'') @
     page_section ''/''
       (''# https://example.com/'' @ [NL, NL] @ ''*Extracted using: body-fallback*'' @ [NL, NL] @
        ''<body><a href=https://example.com>home</a></body>'') @
     summary (snd (crawl example_libs example_world example_crawler)) \<and>
   \<not> prefix ''# Website Crawl'' (llms_md (snd (crawl example_libs example_world example_crawler))) \<and>
   \<not> prefix ''# Website Crawl'' (fst (crawl example_libs example_world example_crawler))"
  by code_simp

text \<open>
  C7, at an input where the code leaves the claim. The example site serves one page at
  \<open>https://example.com\<close> and at \<open>https://example.com/\<close>: the fragment extracted and its
  conversion are the same for both addresses. \<open>parse_url_to_markdown\<close> puts the address
  in front of the converted text, and \<open>_is_duplicate_content\<close> hashes the result, so the
  two texts differ in their first line and the second page is not found to be a
  duplicate: both pages are counted, both are appended to the aggregate, and the
  iteration of the second page goes on to link discovery and to the delay.
\<close>

theorem same_page_appended_twice:
  "http_get example_world ''https://example.com'' = Inr page_home \<and>
   http_get example_world ''https://example.com/'' = Inr page_home \<and>
   fst (parse_url_to_markdown example_libs example_world ''https://example.com'' []) =
     Inr (''# https://example.com'' @ [NL, NL] @ ''*Extracted using: body-fallback*'' @ [NL, NL] @
          ''<body><a href=https://example.com>home</a></body>'') \<and>
   fst (parse_url_to_markdown example_libs example_world ''https://example.com/'' []) =
     Inr (''# https://example.com/'' @ [NL, NL] @ ''*Extracted using: body-fallback*'' @ [NL, NL] @
          ''<body><a href=https://example.com>home</a></body>'') \<and>
   fetched (snd (crawl example_libs example_world example_crawler))
     = [''https://example.com'', ''https://example.com/''] \<and>
   pages_crawled (snd (crawl example_libs example_world example_crawler)) = 2 \<and>
   appended (snd (crawl example_libs example_world example_crawler))
     = [''https://example.com'', ''https://example.com/''] \<and>
   slept_after (snd (crawl example_libs example_world example_crawler))
     = [''https://example.com'', ''https://example.com/''] \<and>
   fst (crawl example_libs example_world example_crawler) =
     page_section ''/''
       (''# https://example.com'' @ [NL, NL] @ ''*Extracted using: body-fallback*'' @ [NL, NL] @
        ''<body><a href=https://example.com>home</a></body>'') @
     page_section ''/''
       (''# https://example.com/'' @ [NL, NL] @ ''*Extracted using: body-fallback*'' @ [NL, NL] @
        ''<body><a href=https://example.com>home</a></body>'') @
     summary (snd (crawl example_libs example_world example_crawler))"
  by code_simp

end
